theory Spec2Isabelle
  imports Main "HOL-Library.FSet"
begin


section \<open>Python strings\<close>

text \<open>
  A Python \<open>str\<close> is modelled as a \<open>string\<close>, one \<open>char\<close> per character; the
  model covers text whose characters are below 256. \<open>str.lower\<close> is modelled on the
  ASCII letters (other characters are unchanged); \<open>str.isspace\<close>, which also decides
  what \<open>str.strip\<close> removes and what \<open>\s\<close> matches in a regular expression, holds
  for the characters 9 to 13, 28 to 32, 133 and 160.
\<close>

definition is_space :: "char \<Rightarrow> bool" where
  "is_space c = (of_char c \<in> set [9, 10, 11, 12, 13, 28, 29, 30, 31, 32, 133, 160 :: nat])"

definition strip :: "string \<Rightarrow> string" where
  "strip s = rev (dropWhile is_space (rev (dropWhile is_space s)))"

definition lower_char :: "char \<Rightarrow> char" where
  "lower_char c =
     (case map_of (zip ''ABCDEFGHIJKLMNOPQRSTUVWXYZ'' ''abcdefghijklmnopqrstuvwxyz'') c of
        None \<Rightarrow> c | Some l \<Rightarrow> l)"

definition lower :: "string \<Rightarrow> string" where
  "lower s = map lower_char s"

definition startswith :: "string \<Rightarrow> string \<Rightarrow> bool" where
  "startswith s p = (take (length p) s = p)"

text \<open>\<open>contains sub s\<close> is the Python test \<open>sub in s\<close>.\<close>

fun contains :: "string \<Rightarrow> string \<Rightarrow> bool" where
  "contains sub [] = (sub = [])"
| "contains sub (c # cs) = (startswith (c # cs) sub \<or> contains sub cs)"

text \<open>\<open>split_on sep s\<close> is \<open>s.split(sep)\<close> for a separator of one character.\<close>

fun split_on :: "char \<Rightarrow> string \<Rightarrow> string list" where
  "split_on sep [] = [[]]"
| "split_on sep (c # cs) =
     (if c = sep then [] # split_on sep cs
      else (case split_on sep cs of
              [] \<Rightarrow> [[c]]
            | piece # pieces \<Rightarrow> (c # piece) # pieces))"

text \<open>\<open>join sep parts\<close> is \<open>sep.join(parts)\<close>.\<close>

fun join :: "string \<Rightarrow> string list \<Rightarrow> string" where
  "join sep [] = []"
| "join sep [p] = p"
| "join sep (p # q # ps) = p @ sep @ join sep (q # ps)"

text \<open>
  \<open>before_first sub s\<close> is \<open>s.split(sub)[0]\<close> and \<open>after_first sub s\<close> is the rest of
  \<open>s\<close> after the first occurrence of \<open>sub\<close> (empty when there is none), for a
  non-empty \<open>sub\<close>.
\<close>

fun before_first :: "string \<Rightarrow> string \<Rightarrow> string" where
  "before_first sub [] = []"
| "before_first sub (c # cs) =
     (if startswith (c # cs) sub then [] else c # before_first sub cs)"

fun after_first :: "string \<Rightarrow> string \<Rightarrow> string" where
  "after_first sub [] = []"
| "after_first sub (c # cs) =
     (if startswith (c # cs) sub then drop (length sub) (c # cs) else after_first sub cs)"


section \<open>Workflow routing (qa\_agent/workflow.py)\<close>

text \<open>
  The workflow state is a dictionary read with \<open>state.get(key, default)\<close>. Each key
  the router reads is a field holding \<open>None\<close> when the key is absent, so that the
  defaults of the source are visible in the model. \<open>error\<close> and \<open>think_output\<close> are
  strings tested for truthiness (absent or empty is false).
\<close>

record qa_state =
  completed :: "bool option"
  error :: "string option"
  consecutive_failures :: "int option"
  max_failures :: "int option"
  final_response_after_failure :: "bool option"
  step_count :: "int option"
  max_steps :: "int option"
  think_output :: "string option"

definition get_or :: "'a option \<Rightarrow> 'a \<Rightarrow> 'a" where
  "get_or v d = (case v of None \<Rightarrow> d | Some x \<Rightarrow> x)"

definition truthy_bool :: "bool option \<Rightarrow> bool" where
  "truthy_bool v = (case v of None \<Rightarrow> False | Some b \<Rightarrow> b)"

definition truthy_str :: "string option \<Rightarrow> bool" where
  "truthy_str v = (case v of None \<Rightarrow> False | Some s \<Rightarrow> s \<noteq> [])"

definition int_of_bool :: "bool \<Rightarrow> int" where
  "int_of_bool b = (if b then 1 else 0)"

text \<open>
  Every branch of the router logs a different message before it returns; the branch
  taken is kept with the returned route so that the reason of a stop can be stated.
\<close>

datatype route = Continue | Done | Replan

datatype think_guard =
  TaskCompleted | ThinkError | MaxFailuresReached | MaxStepsReached | ThinkDecision | NoThinkOutput

definition should_continue_after_think_guard :: "int \<Rightarrow> qa_state \<Rightarrow> think_guard" where
  "should_continue_after_think_guard settings_max_steps state =
    (if truthy_bool (completed state) then TaskCompleted
     else if truthy_str (error state) then ThinkError
     else if get_or (consecutive_failures state) 0
          \<ge> get_or (max_failures state) 3
            + int_of_bool (get_or (final_response_after_failure state) True)
       then MaxFailuresReached
     else if get_or (step_count state) 0 \<ge> get_or (max_steps state) settings_max_steps
       then MaxStepsReached
     else if truthy_str (think_output state) then ThinkDecision
     else NoThinkOutput)"

fun route_of_guard :: "think_guard \<Rightarrow> route" where
  "route_of_guard TaskCompleted = Done"
| "route_of_guard ThinkError = Done"
| "route_of_guard MaxFailuresReached = Done"
| "route_of_guard MaxStepsReached = Done"
| "route_of_guard ThinkDecision = Continue"
| "route_of_guard NoThinkOutput = Done"

definition should_continue_after_think :: "int \<Rightarrow> qa_state \<Rightarrow> route" where
  "should_continue_after_think settings_max_steps state =
     route_of_guard (should_continue_after_think_guard settings_max_steps state)"


section \<open>State updates of the ACT wrapper (web\_agent/nodes/act\_wrapper.py)\<close>

text \<open>
  A node returns a dictionary of the keys it updates; the workflow engine writes these
  keys into the state and leaves every other key as it was. The state is therefore a
  finite map from key names to values, and a node's result is the association list of
  the returned dictionary, with the keys in the order the source writes them.
  Values whose content plays no role here (lists of actions, feedback dictionaries,
  the file-system state) are kept opaque.
\<close>

datatype py_value = PyBool bool | PyInt int | PyStr string | PyNone | PyOpaque

type_synonym node_state = "string \<rightharpoonup> py_value"

definition apply_update :: "node_state \<Rightarrow> (string \<times> py_value) list \<Rightarrow> node_state" where
  "apply_update state returned = state ++ map_of returned"

text \<open>
  What happened inside \<open>act_wrapper_node\<close>: the page validation failed with a recovery
  suggestion, the action generator produced no actions, the original act node ran
  (with the \<open>success\<close> flag of every action result, \<open>r.get("success", False)\<close>, and
  the number of executed actions), or an exception was caught.
\<close>

datatype act_outcome =
    PageMismatch string
  | NoActionsGenerated
  | Executed "bool list" nat
  | WrapperException string

definition all_succeeded :: "bool list \<Rightarrow> nat \<Rightarrow> bool" where
  "all_succeeded action_results n_executed =
     (if action_results \<noteq> [] then list_all (\<lambda>r. r) action_results else n_executed > 0)"

fun act_wrapper_node :: "act_outcome \<Rightarrow> (string \<times> py_value) list" where
  "act_wrapper_node (PageMismatch recovery_suggestion) =
     [(''executed_actions'', PyOpaque),
      (''action_results'', PyOpaque),
      (''act_feedback'', PyOpaque),
      (''act_error_context'', PyStr recovery_suggestion),
      (''last_act_result_success'', PyBool False),
      (''page_validation'', PyOpaque)]"
| "act_wrapper_node NoActionsGenerated =
     [(''executed_actions'', PyOpaque),
      (''action_results'', PyOpaque),
      (''act_feedback'', PyOpaque),
      (''act_error_context'', PyStr ''LLM could not generate actions from THINK decision''),
      (''last_act_result_success'', PyBool False)]"
| "act_wrapper_node (Executed action_results n_executed) =
     [(''executed_actions'', PyOpaque),
      (''action_results'', PyOpaque),
      (''act_feedback'', PyOpaque),
      (''act_error_context'', PyOpaque),
      (''last_act_result_success'', PyBool (all_succeeded action_results n_executed)),
      (''file_system_state'', PyOpaque),
      (''page_validation'', PyOpaque),
      (''inferred_page'', PyOpaque),
      (''think_retries'', PyInt 0),
      (''history'', PyOpaque)]"
| "act_wrapper_node (WrapperException e) =
     [(''executed_actions'', PyOpaque),
      (''action_results'', PyOpaque),
      (''act_feedback'', PyOpaque),
      (''act_error_context'', PyStr e),
      (''last_act_result_success'', PyBool False),
      (''error'', PyStr e)]"


section \<open>Action-repetition detection of the Think node (web\_agent/nodes/think.py)\<close>

text \<open>
  An action is the dictionary \<open>_tool_call_to_action\<close> builds: empty when the tool call
  has no name, otherwise \<open>action_type\<close> with \<open>params\<close>, of which only
  \<open>params.get("index")\<close> is read here. A history entry is read through its \<open>node\<close>
  and \<open>actions\<close> keys (an entry without \<open>actions\<close> has the empty list).
\<close>

datatype action = EmptyAction | Action (action_type: string) (params_index: "int option")

record history_entry =
  node :: string
  actions :: "action list"















section \<open>New-element delta of the Act node (web\_agent/nodes/act.py)\<close>

definition DOM_CHANGING_ACTIONS :: "string list" where
  "DOM_CHANGING_ACTIONS =
     [''click'', ''input_text'', ''scroll'', ''toggle_checkbox'', ''select_dropdown'']"

definition has_dom_changing_action :: "string list \<Rightarrow> bool" where
  "has_dom_changing_action executed_action_types =
     list_ex (\<lambda>a. a \<in> set DOM_CHANGING_ACTIONS) executed_action_types"

text \<open>
  \<open>previous_element_ids\<close> are the selector-map keys before the actions,
  \<open>final_element_ids\<close> is what \<open>detect_dom_changes_adaptively\<close> (not part of these
  sources) returned, \<open>current_element_ids\<close> are the keys of the fresh browser state
  fetched afterwards. A Python set is false when it is empty.
\<close>

definition new_element_ids ::
  "string list \<Rightarrow> int fset \<Rightarrow> int fset \<Rightarrow> int fset \<Rightarrow> int fset" where
  "new_element_ids executed_action_types previous_element_ids final_element_ids
       current_element_ids =
     (let new0 = (if has_dom_changing_action executed_action_types
                     \<and> previous_element_ids \<noteq> {||}
                  then final_element_ids |-| previous_element_ids
                  else {||})
      in if new0 = {||} \<and> previous_element_ids \<noteq> {||}
         then current_element_ids |-| previous_element_ids
         else new0)"

definition likely_pattern :: "nat \<Rightarrow> string" where
  "likely_pattern n =
     (if n > 15 then ''modal_or_form_opened''
      else if n > 5 then ''dropdown_or_menu_opened''
      else if n > 0 then ''suggestions_or_details_appeared''
      else ''no_new_elements'')"

text \<open>
  The \<open>likely_pattern\<close> entry of the action context, built only when there is a last
  executed action.
\<close>

definition action_context_pattern ::
  "string list \<Rightarrow> int fset \<Rightarrow> int fset \<Rightarrow> int fset \<Rightarrow> string option" where
  "action_context_pattern executed_action_types previous_element_ids final_element_ids
       current_element_ids =
     (if executed_action_types = [] then None
      else Some (likely_pattern (fcard (new_element_ids executed_action_types
             previous_element_ids final_element_ids current_element_ids))))"


section \<open>Page context analysis (qa\_agent/utils/page\_context.py)\<close>

text \<open>
  The browser state summary as the analyzer reads it. \<open>bs_selector_map\<close> is \<open>None\<close>
  when \<open>dom_state\<close> is missing; otherwise it lists the selector map in iteration
  order, each element by its identifier and the text \<open>str(elem_info)\<close>.
  \<open>bs_url_path\<close> is what the library call \<open>urlparse(url).path\<close> gives for the URL,
  and \<open>None\<close> when that call raises.
\<close>

record browser_state =
  bs_url :: string
  bs_url_path :: "string option"
  bs_title :: string
  bs_selector_map :: "(int \<times> string) list option"

text \<open>
  \<open>str(elem_info).split("Type:")[1].split("}")[0]\<close> when \<open>"Type:"\<close> occurs in the
  text, and \<open>"unknown"\<close> otherwise.
\<close>

definition element_type_of :: "string \<Rightarrow> string" where
  "element_type_of elem_str =
     (if contains ''Type:'' elem_str
      then before_first ''}'' (before_first ''Type:'' (after_first ''Type:'' elem_str))
      else ''unknown'')"

text \<open>\<open>_get_element_types\<close>, read through \<open>types.get(t, 0)\<close>.\<close>

definition get_element_types :: "(int \<times> string) list \<Rightarrow> string \<Rightarrow> nat" where
  "get_element_types selector_map t =
     length (filter (\<lambda>(elem_id, elem_info). element_type_of elem_info = t) selector_map)"

definition text_hints :: "string \<Rightarrow> string list" where
  "text_hints elem_info =
     (let elem_str = lower elem_info in
        (if contains ''login'' elem_str \<or> contains ''sign in'' elem_str then [''login''] else [])
      @ (if contains ''submit'' elem_str \<or> contains ''next'' elem_str then [''submit''] else [])
      @ (if contains ''email'' elem_str \<or> contains ''username'' elem_str
         then [''email_field''] else [])
      @ (if contains ''password'' elem_str then [''password_field''] else [])
      @ (if contains ''search'' elem_str then [''search''] else []))"

text \<open>
  \<open>_extract_text_elements\<close> returns \<open>list(set(texts))\<close>: the distinct hints, in an
  order Python does not fix. Its callers only test membership.
\<close>

definition extract_text_elements :: "(int \<times> string) list \<Rightarrow> string list" where
  "extract_text_elements selector_map =
     remdups (concat (map (\<lambda>(elem_id, elem_info). text_hints elem_info) selector_map))"

text \<open>
  The analyzer object after \<open>__init__\<close>. \<open>dom_elements\<close> is the empty dictionary
  when there is no browser state or no DOM state, so every \<open>get\<close> on it gives its
  default: no element types, no visible elements, element count 0.
\<close>

record analyzer =
  url_path :: "string option"
  element_count :: nat
  element_types :: "string \<Rightarrow> nat"
  visible_text_elements :: "string list"

definition page_context_analyzer :: "browser_state option \<Rightarrow> analyzer" where
  "page_context_analyzer bs =
     (case bs of
        None \<Rightarrow> \<lparr>url_path = Some [], element_count = 0, element_types = (\<lambda>t. 0),
                 visible_text_elements = []\<rparr>
      | Some b \<Rightarrow>
         (case bs_selector_map b of
            None \<Rightarrow> \<lparr>url_path = bs_url_path b, element_count = 0, element_types = (\<lambda>t. 0),
                     visible_text_elements = []\<rparr>
          | Some selector_map \<Rightarrow>
              \<lparr>url_path = bs_url_path b, element_count = length selector_map,
               element_types = get_element_types selector_map,
               visible_text_elements = extract_text_elements selector_map\<rparr>))"

definition page_indicators :: "(string \<times> string list) list" where
  "page_indicators =
     [(''auth_keywords'',
        [''login'', ''signin'', ''sign-in'', ''auth'', ''authenticate'', ''account/login'']),
      (''registration_keywords'',
        [''signup'', ''sign-up'', ''register'', ''registration'', ''join'']),
      (''search_keywords'', [''search'', ''query'', ''find'']),
      (''checkout_keywords'', [''checkout'', ''cart'', ''payment'', ''order'', ''purchase'']),
      (''profile_keywords'', [''profile'', ''account'', ''user'', ''settings'', ''preferences'']),
      (''dashboard_keywords'', [''dashboard'', ''home'', ''main'', ''app'', ''admin''])]"

text \<open>
  \<open>[s for s in path.split("/") if s]\<close> of the lower-cased path; no segments when
  \<open>urlparse\<close> raised.
\<close>

definition path_segments :: "analyzer \<Rightarrow> string list" where
  "path_segments a =
     (case url_path a of
        None \<Rightarrow> []
      | Some p \<Rightarrow> filter (\<lambda>s. s \<noteq> []) (split_on CHR ''/'' (lower p)))"

text \<open>
  The first keyword family, in table order, with a keyword inside some path segment;
  \<open>page_type.replace("_keywords", "")\<close> removes the suffix of its name.
\<close>

definition matched_page_type :: "analyzer \<Rightarrow> string option" where
  "matched_page_type a =
     (case filter (\<lambda>(page_type, keywords).
                     list_ex (\<lambda>segment. list_ex (\<lambda>kw. contains kw segment) keywords)
                       (path_segments a))
             page_indicators of
        [] \<Rightarrow> None
      | (page_type, keywords) # _ \<Rightarrow>
          Some (take (length page_type - length ''_keywords'') page_type))"

definition infer_current_page :: "analyzer \<Rightarrow> string" where
  "infer_current_page a =
     (let visible_elements = visible_text_elements a;
          matched = matched_page_type a;
          has_password_field = (''password'' \<in> set visible_elements);
          has_email_field = (''email_field'' \<in> set visible_elements);
          has_username_field = (''username'' \<in> set visible_elements);
          has_address_field = (''address'' \<in> set visible_elements);
          has_payment_field = (''payment'' \<in> set visible_elements);
          has_search_field = (''search'' \<in> set visible_elements);
          input_count = element_types a ''input'';
          button_count = element_types a ''button'';
          form_count = element_types a ''form'';
          link_count = element_types a ''a''
      in
      if matched = Some ''auth'' then
        (if (has_email_field \<or> has_username_field) \<and> has_password_field \<and> button_count > 0
         then ''login''
         else if input_count > 3 \<and> button_count > 0 then ''signup''
         else ''auth_page'')
      else if matched = Some ''registration'' then ''signup''
      else if matched = Some ''search'' then ''search''
      else if matched = Some ''checkout'' then
        (if has_email_field \<or> has_address_field \<or> has_payment_field then ''checkout''
         else ''commerce_page'')
      else if matched = Some ''profile'' then ''profile''
      else if matched = Some ''dashboard'' then ''dashboard''
      else if (has_email_field \<or> has_username_field) \<and> has_password_field then ''login''
      else if input_count \<ge> 3 \<and> (has_email_field \<or> has_password_field) then ''signup''
      else if has_address_field \<or> has_payment_field then ''checkout''
      else if has_search_field \<and> element_count a > 10 then ''search''
      else if form_count > 0 \<and> input_count \<ge> 2 then ''form_page''
      else if link_count > 10 \<and> element_count a > 20 then ''content_page''
      else if element_count a \<ge> 5 \<and> link_count \<ge> 3 \<and> button_count \<ge> 2 then ''main_page''
      else if element_count a < 5 then ''simple_page''
      else ''unknown'')"

definition action_keywords :: "(string \<times> string list) list" where
  "action_keywords =
     [(''login'', [''login'', ''sign in'', ''signin'', ''authenticate'']),
      (''signup'', [''signup'', ''sign up'', ''register'', ''create account'', ''join'']),
      (''email'', [''email'', ''enter email'', ''type email'', ''fill email'']),
      (''password'', [''password'', ''enter password'', ''type password'']),
      (''search'', [''search'', ''find'', ''query'']),
      (''checkout'', [''checkout'', ''purchase'', ''pay'', ''submit order'']),
      (''profile'', [''profile'', ''account'', ''settings'']),
      (''navigate'', [''go to'', ''navigate to'', ''visit''])]"

definition step_actions_of :: "string \<Rightarrow> string list" where
  "step_actions_of step_lower =
     map fst (filter (\<lambda>(action_name, keywords). list_ex (\<lambda>kw. contains kw step_lower) keywords)
                action_keywords)"

text \<open>The value \<open>None\<close> of \<open>navigate\<close> contributes no page, like an empty list.\<close>

definition action_to_page_patterns :: "(string \<times> string list) list" where
  "action_to_page_patterns =
     [(''login'', [''login'', ''auth_page'']),
      (''signup'', [''signup'', ''auth_page'', ''registration'']),
      (''email'', [''login'', ''signup'', ''checkout'', ''profile'', ''form_page'']),
      (''password'', [''login'', ''signup'', ''auth_page'']),
      (''search'', [''search'', ''main_page'', ''content_page'']),
      (''checkout'', [''checkout'', ''commerce_page'']),
      (''profile'', [''profile'', ''dashboard'']),
      (''navigate'', [])]"

definition expected_pages_of :: "string list \<Rightarrow> string list" where
  "expected_pages_of step_actions =
     remdups (concat (map (\<lambda>action. case map_of action_to_page_patterns action of
                                        None \<Rightarrow> [] | Some pages \<Rightarrow> pages) step_actions))"

definition element_availability :: "string list \<Rightarrow> (string \<times> bool) list" where
  "element_availability key_elements =
     [(''email'', ''email_field'' \<in> set key_elements),
      (''password'', ''password_field'' \<in> set key_elements),
      (''search'', ''search'' \<in> set key_elements),
      (''address'', ''address_field'' \<in> set key_elements),
      (''payment'', ''payment_field'' \<in> set key_elements),
      (''username'', ''username'' \<in> set key_elements)]"

text \<open>
  The reason returned with the verdict is a formatted message; the model keeps which
  message it is and the values it is built from (the detected actions, the expected
  pages, the inferred page).
\<close>

datatype validation_reason =
    NavigationFromAnyPage
  | OnCorrectPage "string list" string
  | FoundRequiredElements "string list"
  | FormPageDetected
  | CommercePageDetected
  | PageHasInputElements
  | StepPageMismatch "string list" "string list" string

definition validate_against_todo_step :: "analyzer \<Rightarrow> string \<Rightarrow> bool \<times> validation_reason" where
  "validate_against_todo_step a current_step_text =
     (let step_lower = lower current_step_text;
          inferred_page = infer_current_page a;
          key_elements = visible_text_elements a;
          step_actions = step_actions_of step_lower;
          expected_pages = expected_pages_of step_actions;
          required_elements_present =
            filter (\<lambda>action. map_of (element_availability key_elements) action = Some True)
              step_actions
      in
      if ''navigate'' \<in> set step_actions \<and> length step_actions = 1
        then (True, NavigationFromAnyPage)
      else if expected_pages \<noteq> [] \<and> inferred_page \<in> set expected_pages
        then (True, OnCorrectPage step_actions inferred_page)
      else if required_elements_present \<noteq> []
        then (True, FoundRequiredElements required_elements_present)
      else if ''email'' \<in> set step_actions \<and> element_types a ''form'' > 0
        then (True, FormPageDetected)
      else if ''checkout'' \<in> set step_actions
              \<and> (element_types a ''payment'' > 0 \<or> element_types a ''form'' > 1)
        then (True, CommercePageDetected)
      else if ''search'' \<in> set step_actions \<and> element_types a ''input'' > 0
        then (True, PageHasInputElements)
      else (False, StepPageMismatch step_actions expected_pages inferred_page))"


section \<open>Regular expressions as the \<open>re\<close> module matches them\<close>

text \<open>
  The patterns of the sources use literal text, the classes \<open>\s\<close>, \<open>.\<close> and
  \<open>[xX]\<close>, sequence, alternation \<open>(?:a|b)\<close>, the greedy \<open>?\<close>, \<open>*\<close> and \<open>+\<close> (the
  last two only on a class) and the lazy bounded repetition \<open>.{0,20}?\<close>.
  A backtracking matcher tries the alternatives of a pattern in a fixed order;
  \<open>remainders r s\<close> lists, in that order, what is left of \<open>s\<close> after each way of
  matching \<open>r\<close> at its start. The first entry is the match Python reports, a later
  one is what it backtracks to when the rest of the pattern fails.
\<close>

datatype char_class = Whitespace | Dot | OneOf string

fun in_class :: "char_class \<Rightarrow> char \<Rightarrow> bool" where
  "in_class Whitespace c = is_space c"
| "in_class Dot c = (c \<noteq> CHR 0x0A)"
| "in_class (OneOf cs) c = (c \<in> set cs)"

datatype regex =
    Lit string
  | Cls char_class
  | Seq regex regex
  | Alt regex regex
  | Opt regex
  | Star char_class
  | Plus char_class
  | LazyUpTo nat char_class

fun star_remainders :: "char_class \<Rightarrow> string \<Rightarrow> string list" where
  "star_remainders k [] = [[]]"
| "star_remainders k (c # cs) = (if in_class k c then star_remainders k cs else []) @ [c # cs]"

fun lazy_remainders :: "nat \<Rightarrow> char_class \<Rightarrow> string \<Rightarrow> string list" where
  "lazy_remainders 0 k s = [s]"
| "lazy_remainders (Suc n) k [] = [[]]"
| "lazy_remainders (Suc n) k (c # cs) =
     (c # cs) # (if in_class k c then lazy_remainders n k cs else [])"

fun remainders :: "regex \<Rightarrow> string \<Rightarrow> string list" where
  "remainders (Lit l) s = (if startswith s l then [drop (length l) s] else [])"
| "remainders (Cls k) s = (case s of [] \<Rightarrow> [] | c # cs \<Rightarrow> if in_class k c then [cs] else [])"
| "remainders (Seq a b) s = concat (map (remainders b) (remainders a s))"
| "remainders (Alt a b) s = remainders a s @ remainders b s"
| "remainders (Opt a) s = remainders a s @ [s]"
| "remainders (Star k) s = star_remainders k s"
| "remainders (Plus k) s =
     (case s of [] \<Rightarrow> [] | c # cs \<Rightarrow> if in_class k c then star_remainders k cs else [])"
| "remainders (LazyUpTo n k) s = lazy_remainders n k s"

text \<open>\<open>(?:a|b|c)\<close> over literal alternatives, and a sequence of patterns.\<close>

fun alt_lits :: "string list \<Rightarrow> regex" where
  "alt_lits [] = Lit []"
| "alt_lits [a] = Lit a"
| "alt_lits (a # b # bs) = Alt (Lit a) (alt_lits (b # bs))"

fun seqs :: "regex list \<Rightarrow> regex" where
  "seqs [] = Lit []"
| "seqs [r] = r"
| "seqs (r # q # qs) = Seq r (seqs (q # qs))"

text \<open>\<open>re.search(r, s)\<close> finds a match at some position: its truth value.\<close>

fun re_search :: "regex \<Rightarrow> string \<Rightarrow> bool" where
  "re_search r [] = (remainders r [] \<noteq> [])"
| "re_search r (c # cs) = (remainders r (c # cs) \<noteq> [] \<or> re_search r cs)"

text \<open>
  \<open>re.finditer(r, s)\<close>: the spans \<open>(start, end)\<close> of the successive non-overlapping
  matches, scanning from the left; \<open>pos\<close> is the position of \<open>s\<close> in the whole text.
  After a match the scan resumes where the match ended. No pattern of the error table
  matches the empty string; for an empty match the model records it and moves on by
  one character.
\<close>

function finditer_from :: "regex \<Rightarrow> nat \<Rightarrow> string \<Rightarrow> (nat \<times> nat) list" where
  "finditer_from r pos s =
     (case remainders r s of
        [] \<Rightarrow> (case s of [] \<Rightarrow> [] | c # cs \<Rightarrow> finditer_from r (pos + 1) cs)
      | rest # alternatives \<Rightarrow>
          (if length rest < length s
           then (pos, pos + (length s - length rest))
                  # finditer_from r (pos + (length s - length rest)) rest
           else (pos, pos) # (case s of [] \<Rightarrow> [] | c # cs \<Rightarrow> finditer_from r (pos + 1) cs)))"
  by pat_completeness auto
termination
  by (relation "measure (\<lambda>(r, pos, s). length s)") auto

definition finditer :: "regex \<Rightarrow> string \<Rightarrow> (nat \<times> nat) list" where
  "finditer r s = finditer_from r 0 s"


section \<open>Error detection (qa\_agent/utils/error\_detector.py)\<close>

record extracted_error =
  error_type :: string
  message :: string
  element_id :: "int option"
  field_name :: "string option"
  severity :: string
  recovery_hint :: "string option"

text \<open>The table \<open>ERROR_PATTERNS\<close>, in the order the dictionary is written.\<close>

definition ERROR_PATTERNS :: "(string \<times> regex list) list" where
  "ERROR_PATTERNS =
    [(''already_exists'',
       [Seq (Lit ''already '') (alt_lits [''registered'', ''exists'', ''in use'', ''taken'']),
        Seq (alt_lits [''email'', ''username'', ''account'']) (Lit '' already''),
        seqs [alt_lits [''this'', ''the''], Lit '' '', LazyUpTo 20 Dot, Lit '' is already''],
        Lit ''duplicate entry'',
        Seq (Lit ''already '') (alt_lits [''have an account'', ''signed up''])]),
     (''permission_denied'',
       [Seq (alt_lits [''access'', ''permission'']) (Lit '' denied''),
        seqs [Opt (Lit ''you ''),
              alt_lits [''do not have'', ''don't have''],
              Lit '' '', alt_lits [''permission'', ''access'']],
        Lit ''unauthorized'',
        Seq (Lit ''not '') (alt_lits [''authorized'', ''allowed'']),
        Lit ''forbidden'']),
     (''not_found'',
       [Lit ''not found'',
        alt_lits [''could not find'', ''doesn't exist'', ''no such''],
        Lit ''404'',
        Lit ''page not found'',
        Lit ''resource not found'']),
     (''invalid_input'',
       [Lit ''invalid'',
        seqs [alt_lits [''must be'', ''should be'', ''is''], Lit '' '',
              alt_lits [''valid'', ''required'', ''filled'']],
        seqs [alt_lits [''please'', ''enter a''], Lit '' '', alt_lits [''valid'', ''correct'']],
        Seq (Opt (Lit ''field is '')) (Lit ''required''),
        Seq (alt_lits [''must'', ''should'']) (Lit '' not be empty''),
        Seq (Lit ''incorrect '') (alt_lits [''format'', ''length'', ''pattern''])]),
     (''network_error'',
       [Lit ''network error'',
        Alt (Seq (Lit ''failed to '') (alt_lits [''load'', ''connect'', ''fetch'']))
            (Lit ''connection lost''),
        Seq (alt_lits [''unable to'', ''can't'']) (Lit '' connect''),
        Lit ''timeout'',
        Lit ''offline'',
        Seq (Lit ''check your '') (alt_lits [''internet'', ''connection''])]),
     (''server_error'',
       [Seq (alt_lits [''server'', ''internal'', ''system'']) (Lit '' error''),
        Lit ''500'',
        Lit ''something went wrong'',
        Seq (Lit ''try again '') (alt_lits [''later'', ''in a moment'']),
        Lit ''temporarily unavailable''])]"

definition classify_severity :: "string \<Rightarrow> string" where
  "classify_severity etype =
     (case map_of
        [(''permission_denied'', ''high''),
         (''network_error'', ''high''),
         (''server_error'', ''high''),
         (''already_exists'', ''medium''),
         (''not_found'', ''medium''),
         (''invalid_input'', ''medium'')] etype of
        None \<Rightarrow> ''medium'' | Some s \<Rightarrow> s)"

definition suggest_recovery :: "string \<Rightarrow> string option" where
  "suggest_recovery etype =
     map_of
       [(''already_exists'', ''Try using a different value or switch to login''),
        (''permission_denied'', ''Check your permissions or sign in with appropriate account''),
        (''not_found'', ''Navigate to the correct page or verify the URL''),
        (''invalid_input'', ''Correct the invalid input and try again''),
        (''network_error'', ''Check your internet connection and retry''),
        (''server_error'', ''Wait a moment and retry the action'')] etype"

text \<open>
  \<open>_classify_error_message\<close>: the first type of the table, in order, one of whose
  patterns is found in the lower-cased message; otherwise the keyword buckets.
\<close>

definition any_kw :: "string list \<Rightarrow> string \<Rightarrow> bool" where
  "any_kw kws s = list_ex (\<lambda>kw. contains kw s) kws"

definition classify_error_message :: "string \<Rightarrow> string" where
  "classify_error_message msg =
     (let message_lower = lower msg in
      case filter (\<lambda>(etype, patterns). list_ex (\<lambda>p. re_search p message_lower) patterns)
             ERROR_PATTERNS of
        (etype, patterns) # _ \<Rightarrow> etype
      | [] \<Rightarrow>
         (if any_kw [''validation'', ''invalid'', ''required''] message_lower
            then ''invalid_input''
          else if any_kw [''permission'', ''denied'', ''unauthorized''] message_lower
            then ''permission_denied''
          else if any_kw [''not found'', ''not exist''] message_lower then ''not_found''
          else if any_kw [''network'', ''connection'', ''timeout''] message_lower
            then ''network_error''
          else if any_kw [''server'', ''error'', ''failed''] message_lower then ''server_error''
          else ''generic''))"

text \<open>
  \<open>_scan_for_error_patterns\<close>: every match of every pattern gives an error whose
  message is the text from 50 characters before the match to 50 characters after it,
  stripped. The patterns are matched on the lower-cased text with \<open>re.IGNORECASE\<close>,
  which for lower-case patterns on lower-cased text is plain matching.
  \<open>max(0, match.start() - 50)\<close> is the truncating subtraction of \<open>nat\<close>.
\<close>

definition scan_for_error_patterns :: "string \<Rightarrow> extracted_error list" where
  "scan_for_error_patterns text =
     (let text_lower = lower text in
      concat (map (\<lambda>(etype, patterns).
        concat (map (\<lambda>pattern.
          map (\<lambda>(match_start, match_end).
                 let start = match_start - 50;
                     end_pos = min (length text) (match_end + 50)
                 in \<lparr>error_type = etype,
                     message = strip (take (end_pos - start) (drop start text)),
                     element_id = None, field_name = None,
                     severity = classify_severity etype,
                     recovery_hint = suggest_recovery etype\<rparr>)
              (finditer pattern text_lower)) patterns)) ERROR_PATTERNS))"

text \<open>
  A clickable element of the DOM as \<open>_find_error_elements\<close> reads it: \<open>class_name\<close>,
  \<open>id\<close> and \<open>text\<close> (an absent or empty attribute is the empty string) and
  \<open>element_id\<close>.
\<close>

record dom_element =
  class_name :: string
  elem_id :: string
  elem_text :: string
  elem_element_id :: "int option"

definition error_indicators :: "string list" where
  "error_indicators =
     [''error'', ''alert-danger'', ''alert-error'', ''invalid'',
      ''validation-error'', ''form-error'', ''field-error'',
      ''error-message'', ''error-text'', ''error-feedback'']"

definition find_error_elements :: "dom_element list option \<Rightarrow> extracted_error list" where
  "find_error_elements clickable_elements =
     (case clickable_elements of
        None \<Rightarrow> []
      | Some elems \<Rightarrow>
          concat (map (\<lambda>elem.
            let combined = lower (class_name elem @ '' '' @ elem_id elem @ '' '' @ elem_text elem)
            in if list_ex (\<lambda>indicator. contains indicator combined \<and> strip (elem_text elem) \<noteq> [])
                    error_indicators
               then [\<lparr>error_type = ''validation'', message = strip (elem_text elem),
                      element_id = elem_element_id elem, field_name = None,
                      severity = ''high'',
                      recovery_hint = Some ''Fix the validation error''\<rparr>]
               else []) elems))"

text \<open>
  The DOM of the browser state: its text (\<open>_extract_dom_text\<close>) and its clickable
  elements, \<open>None\<close> when the DOM has no such attribute. The console watchdog of the
  session gives the recent console errors and the validation errors, each by its
  \<open>text\<close> key (\<open>None\<close> when the key is absent); \<open>console\<close> is \<open>None\<close> when there is
  no session or no watchdog.
\<close>

record dom =
  dom_text :: string
  clickable_elements :: "dom_element list option"

record console_watchdog =
  recent_errors :: "string option list"
  validation_errors :: "string option list"

definition console_error :: "string option \<Rightarrow> extracted_error" where
  "console_error console_err =
     (let etype = classify_error_message (case console_err of None \<Rightarrow> [] | Some t \<Rightarrow> t)
      in \<lparr>error_type = etype,
          message = take 200 (case console_err of None \<Rightarrow> ''Unknown error'' | Some t \<Rightarrow> t),
          element_id = None, field_name = None,
          severity = classify_severity etype,
          recovery_hint = suggest_recovery etype\<rparr>)"

definition validation_error :: "string option \<Rightarrow> extracted_error" where
  "validation_error val_err =
     \<lparr>error_type = ''invalid_input'',
      message = take 200 (case val_err of None \<Rightarrow> ''Validation error'' | Some t \<Rightarrow> t),
      element_id = None, field_name = None,
      severity = ''medium'',
      recovery_hint = Some ''Correct the invalid input and try again''\<rparr>"

text \<open>The loop over the first three validation errors: one is added unless an error
  with the same message is already in the list.\<close>

fun add_validation_errors :: "extracted_error list \<Rightarrow> string option list \<Rightarrow> extracted_error list" where
  "add_validation_errors errors [] = errors"
| "add_validation_errors errors (val_err # later) =
     (let e = validation_error val_err in
      if list_ex (\<lambda>e'. message e' = message e) errors
      then add_validation_errors errors later
      else add_validation_errors (errors @ [e]) later)"

definition extract_errors_from_dom ::
  "dom option \<Rightarrow> console_watchdog option \<Rightarrow> extracted_error list" where
  "extract_errors_from_dom page_dom console =
     (let errors =
        (case console of
           None \<Rightarrow> []
         | Some w \<Rightarrow> add_validation_errors (map console_error (recent_errors w))
                       (take 3 (validation_errors w)))
      in if errors = [] then
           (case page_dom of
              None \<Rightarrow> errors
            | Some d \<Rightarrow> errors @ scan_for_error_patterns (dom_text d)
                          @ find_error_elements (clickable_elements d))
         else errors)"


section \<open>The todo parser (web\_agent/utils/todo\_parser.py)\<close>

text \<open>
  \<open>$\<close> matches at the end of the string and before a newline that ends it.
\<close>

definition at_end :: "string \<Rightarrow> bool" where
  "at_end rest = (rest = [] \<or> rest = [CHR 0x0A])"

text \<open>
  \<open>re.match\<close> of a pattern written \<open>^ ... $\<close>: some way of matching the pattern at the
  start leaves nothing.
\<close>

definition re_match_all :: "regex \<Rightarrow> string \<Rightarrow> bool" where
  "re_match_all r s = list_ex at_end (remainders r s)"

text \<open>
  \<open>re.match\<close> of a pattern \<open>^head(group)$\<close>, giving the text of the group: the first
  way, in backtracking order, of matching \<open>head\<close> and then the group up to the end.
\<close>

definition re_match_group :: "regex \<Rightarrow> regex \<Rightarrow> string \<Rightarrow> string option" where
  "re_match_group head grp s =
     (case [take (length h - length t) h. h \<leftarrow> remainders head s,
                                          t \<leftarrow> remainders grp h, at_end t] of
        [] \<Rightarrow> None
      | g # _ \<Rightarrow> Some g)"

text \<open>
  The step record \<open>{"index": int, "text": str, "completed": bool}\<close>.
\<close>

record step =
  s_index :: int
  s_text :: string
  s_completed :: bool

text \<open>
  \<open>^-\s+\[(x|X)\]\s+(.+)$\<close> and \<open>^-\s+\[\s*\]\s+(.+)$\<close>, each split into the part
  before the group of the step text and that group.
\<close>

definition completed_head :: regex where
  "completed_head =
     seqs [Lit ''-'', Plus Whitespace, Lit ''['', Alt (Lit ''x'') (Lit ''X''), Lit '']'',
           Plus Whitespace]"

definition pending_head :: regex where
  "pending_head =
     seqs [Lit ''-'', Plus Whitespace, Lit ''['', Star Whitespace, Lit '']'', Plus Whitespace]"

definition step_text_group :: regex where
  "step_text_group = Plus Dot"

definition is_tasks_header :: "string \<Rightarrow> bool" where
  "is_tasks_header line_stripped =
     (startswith line_stripped ''## Tasks'' \<or> startswith line_stripped ''## Steps'')"

definition is_other_section :: "string \<Rightarrow> bool" where
  "is_other_section line_stripped =
     (startswith line_stripped ''##'' \<and> \<not> contains ''tasks'' (lower line_stripped)
        \<and> \<not> contains ''steps'' (lower line_stripped))"

text \<open>
  The loop of \<open>parse_todo_steps\<close> over the remaining lines, with its two variables
  \<open>task_section_started\<close> and \<open>step_index\<close>; the result is the pair of the
  completed and the pending steps found from here on, in the order of the lines. The
  \<open>break\<close> at another section ends the loop.
\<close>

fun parse_lines :: "bool \<Rightarrow> int \<Rightarrow> string list \<Rightarrow> step list \<times> step list" where
  "parse_lines task_section_started step_index [] = ([], [])"
| "parse_lines task_section_started step_index (line # rest) =
     (let line_stripped = strip line in
      if is_tasks_header line_stripped then parse_lines True step_index rest
      else if \<not> task_section_started then parse_lines task_section_started step_index rest
      else if is_other_section line_stripped then ([], [])
      else (case re_match_group completed_head step_text_group line_stripped of
              Some g \<Rightarrow>
                (case parse_lines task_section_started (step_index + 1) rest of
                   (completed_steps, pending_steps) \<Rightarrow>
                     (\<lparr>s_index = step_index, s_text = strip g, s_completed = True\<rparr>
                        # completed_steps, pending_steps))
            | None \<Rightarrow>
                (case re_match_group pending_head step_text_group line_stripped of
                   Some g \<Rightarrow>
                     (case parse_lines task_section_started (step_index + 1) rest of
                        (completed_steps, pending_steps) \<Rightarrow>
                          (completed_steps,
                           \<lparr>s_index = step_index, s_text = strip g, s_completed = False\<rparr>
                             # pending_steps))
                 | None \<Rightarrow> parse_lines task_section_started step_index rest)))"

definition parse_todo_steps :: "string \<Rightarrow> step list \<times> step list" where
  "parse_todo_steps todo_contents =
     (if todo_contents = [] \<or> strip todo_contents = [] then ([], [])
      else parse_lines False 0 (split_on CHR 0x0A todo_contents))"

definition get_current_step :: "string \<Rightarrow> step option" where
  "get_current_step todo_contents =
     (case snd (parse_todo_steps todo_contents) of
        [] \<Rightarrow> None
      | first_pending # _ \<Rightarrow> Some first_pending)"

text \<open>\<open>^-\s+\[\s*[xX]?\s*\]\s+.+$\<close>, the test for a checkbox item.\<close>

definition task_item_pattern :: regex where
  "task_item_pattern =
     seqs [Lit ''-'', Plus Whitespace, Lit ''['', Star Whitespace, Opt (Cls (OneOf ''xX'')),
           Star Whitespace, Lit '']'', Plus Whitespace, Plus Dot]"

definition is_task_item :: "string \<Rightarrow> bool" where
  "is_task_item line_stripped = re_match_all task_item_pattern line_stripped"

text \<open>
  \<open>re.sub(r'^(-\s+\[)\s*[xX]?(\])', r'\1x\2', line_stripped)\<close>. The pattern is
  anchored at the start, so at most the match at position 0 is replaced: by the text
  of the first group, \<open>x\<close>, and the text of the second group; what follows the match
  is kept. Without a match the line is returned as it is.
\<close>

definition mark_checkbox :: "string \<Rightarrow> string" where
  "mark_checkbox line_stripped =
     (case [(h1, m, t). h1 \<leftarrow> remainders (seqs [Lit ''-'', Plus Whitespace, Lit ''['']) line_stripped,
                       m \<leftarrow> remainders (Seq (Star Whitespace) (Opt (Cls (OneOf ''xX'')))) h1,
                       t \<leftarrow> remainders (Lit '']'') m] of
        [] \<Rightarrow> line_stripped
      | (h1, m, t) # _ \<Rightarrow>
          take (length line_stripped - length h1) line_stripped @ ''x''
            @ take (length m - length t) m @ t)"

text \<open>
  The loop of \<open>mark_step_completed\<close> over the remaining lines, with its variables
  \<open>task_section_started\<close> and \<open>current_step_index\<close>; the result is the list of the
  updated lines.
\<close>

fun mark_lines :: "bool \<Rightarrow> int \<Rightarrow> int \<Rightarrow> string list \<Rightarrow> string list" where
  "mark_lines task_section_started current_step_index step_index [] = []"
| "mark_lines task_section_started current_step_index step_index (line # rest) =
     (let line_stripped = strip line in
      if is_tasks_header line_stripped
        then line # mark_lines True current_step_index step_index rest
      else
        (let started = (if startswith line_stripped ''##'' \<and> task_section_started
                           \<and> \<not> contains ''tasks'' (lower line_stripped)
                           \<and> \<not> contains ''steps'' (lower line_stripped)
                        then False else task_section_started)
         in if \<not> started then line # mark_lines started current_step_index step_index rest
            else if is_task_item line_stripped then
              (if current_step_index = step_index
               then mark_checkbox line_stripped
                      # mark_lines started (current_step_index + 1) step_index rest
               else line # mark_lines started (current_step_index + 1) step_index rest)
            else line # mark_lines started current_step_index step_index rest))"

definition mark_step_completed :: "string \<Rightarrow> int \<Rightarrow> string" where
  "mark_step_completed todo_contents step_index =
     join [CHR 0x0A] (mark_lines False 0 step_index (split_on CHR 0x0A todo_contents))"


subsection \<open>The checklist format\<close>

text \<open>
  The format of todo.md given in the docstring of \<open>parse_todo_steps\<close>: after the
  line that opens the task section, every line is a checkbox item written
  \<open>- [ ] text\<close> or \<open>- [x] text\<close>, with a non-empty text that has no white space
  around it, or a blank line. What precedes the task section (title, goal) is free,
  as long as it does not itself open the task section.
\<close>

definition canonical_item :: "string \<Rightarrow> bool" where
  "canonical_item line =
     ((take 6 line = ''- [ ] '' \<or> take 6 line = ''- [x] '') \<and> drop 6 line \<noteq> []
      \<and> strip (drop 6 line) = drop 6 line \<and> CHR 0x0A \<notin> set line)"

definition item_or_blank :: "string \<Rightarrow> bool" where
  "item_or_blank line = (canonical_item line \<or> strip line = [])"

definition valid_checklist :: "string \<Rightarrow> bool" where
  "valid_checklist todo_contents =
     (case dropWhile (\<lambda>line. \<not> is_tasks_header (strip line)) (split_on CHR 0x0A todo_contents) of
        [] \<Rightarrow> False
      | header # items \<Rightarrow> list_all item_or_blank items)"

text \<open>The step with a given index among the parsed steps, if there is one.\<close>

definition find_step :: "string \<Rightarrow> int \<Rightarrow> step option" where
  "find_step todo_contents k =
     (case parse_todo_steps todo_contents of
        (completed_steps, pending_steps) \<Rightarrow>
          find (\<lambda>s. s_index s = k) (completed_steps @ pending_steps))"

text \<open>
  The line a canonical item becomes when it is marked, and the lookup of a step by its
  index in what the parsing loop returns for the lines of the task section.
\<close>

definition set_done :: "string \<Rightarrow> string" where
  "set_done l = ''- [x] '' @ drop 6 l"

definition lookup :: "int \<Rightarrow> string list \<Rightarrow> int \<Rightarrow> step option" where
  "lookup k items j =
     (case parse_lines True k items of (c, p) \<Rightarrow> find (\<lambda>s. s_index s = j) (c @ p))"


section \<open>Theorems\<close>

subsection \<open>The failure-exhaustion guard of the post-Think router\<close>

text \<open>
  Claim C2. The post-Think router stops for failure exhaustion exactly when neither the
  completed guard nor the error guard fired and
  \<open>consecutive_failures \<ge> max_failures + (1 if final_response_after_failure else 0)\<close>.
  The completed and error guards come first, the step-budget guard and the
  strategic-intent guard come after. At the boundary \<open>consecutive_failures = 3\<close>,
  \<open>max_failures = 3\<close>, \<open>final_response_after_failure = True\<close> the failure guard does
  not fire; with one more failure (4) it does, and the router then returns \<open>done\<close>,
  the route to Report. When \<open>final_response_after_failure\<close> is false the threshold
  is \<open>max_failures\<close> itself; an absent flag counts as true. The router returns
  \<open>continue\<close> only for a strategic decision and \<open>done\<close> for every other
  guard; it never returns \<open>replan\<close>.
\<close>

theorem should_continue_after_think_failure_guard:
  "(should_continue_after_think_guard d s = MaxFailuresReached) =
     (\<not> truthy_bool (completed s) \<and> \<not> truthy_str (error s) \<and>
      get_or (consecutive_failures s) 0
        \<ge> get_or (max_failures s) 3 + (if get_or (final_response_after_failure s) True then 1 else 0))
   \<and> (should_continue_after_think_guard d s = TaskCompleted) = truthy_bool (completed s)
   \<and> (should_continue_after_think_guard d s = ThinkError) =
        (\<not> truthy_bool (completed s) \<and> truthy_str (error s))
   \<and> (should_continue_after_think_guard d s = MaxStepsReached) =
        (\<not> truthy_bool (completed s) \<and> \<not> truthy_str (error s) \<and>
         \<not> get_or (consecutive_failures s) 0
            \<ge> get_or (max_failures s) 3 + (if get_or (final_response_after_failure s) True then 1 else 0) \<and>
         get_or (step_count s) 0 \<ge> get_or (max_steps s) d)
   \<and> (should_continue_after_think_guard d s = ThinkDecision) =
        (\<not> truthy_bool (completed s) \<and> \<not> truthy_str (error s) \<and>
         \<not> get_or (consecutive_failures s) 0
            \<ge> get_or (max_failures s) 3 + (if get_or (final_response_after_failure s) True then 1 else 0) \<and>
         \<not> get_or (step_count s) 0 \<ge> get_or (max_steps s) d \<and>
         truthy_str (think_output s))
   \<and> (should_continue_after_think_guard d s = NoThinkOutput) =
        (\<not> truthy_bool (completed s) \<and> \<not> truthy_str (error s) \<and>
         \<not> get_or (consecutive_failures s) 0
            \<ge> get_or (max_failures s) 3 + (if get_or (final_response_after_failure s) True then 1 else 0) \<and>
         \<not> get_or (step_count s) 0 \<ge> get_or (max_steps s) d \<and>
         \<not> truthy_str (think_output s))
   \<and> should_continue_after_think d s =
        (if truthy_bool (completed s) then Done
         else if truthy_str (error s) then Done
         else if get_or (consecutive_failures s) 0
                 \<ge> get_or (max_failures s) 3 + (if get_or (final_response_after_failure s) True then 1 else 0)
           then Done
         else if get_or (step_count s) 0 \<ge> get_or (max_steps s) d then Done
         else if truthy_str (think_output s) then Continue
         else Done)
   \<and> (should_continue_after_think d s = Done) =
        (should_continue_after_think_guard d s \<noteq> ThinkDecision)
   \<and> (should_continue_after_think d s = Continue) =
        (should_continue_after_think_guard d s = ThinkDecision)
   \<and> should_continue_after_think d s \<noteq> Replan
   \<and> should_continue_after_think_guard d
        (s\<lparr>consecutive_failures := Some 3, max_failures := Some 3,
           final_response_after_failure := Some True\<rparr>) \<noteq> MaxFailuresReached
   \<and> should_continue_after_think_guard d
        (s\<lparr>consecutive_failures := Some 4, max_failures := Some 3,
           final_response_after_failure := Some True\<rparr>) =
        (if truthy_bool (completed s) then TaskCompleted
         else if truthy_str (error s) then ThinkError else MaxFailuresReached)
   \<and> should_continue_after_think d
        (s\<lparr>consecutive_failures := Some 4, max_failures := Some 3,
           final_response_after_failure := Some True\<rparr>) = Done
   \<and> should_continue_after_think_guard d
        (s\<lparr>completed := None, error := None, consecutive_failures := Some 4,
           max_failures := Some 3, final_response_after_failure := Some True\<rparr>)
        = MaxFailuresReached
   \<and> should_continue_after_think d
        (s\<lparr>completed := None, error := None, consecutive_failures := Some 3,
           max_failures := Some 3, final_response_after_failure := Some True,
           step_count := Some 1, max_steps := Some 50, think_output := Some ''click login''\<rparr>)
        = Continue
   \<and> should_continue_after_think_guard d
        (s\<lparr>consecutive_failures := Some 3, max_failures := Some 3,
           final_response_after_failure := Some False\<rparr>) =
        (if truthy_bool (completed s) then TaskCompleted
         else if truthy_str (error s) then ThinkError else MaxFailuresReached)
   \<and> should_continue_after_think d
        (s\<lparr>consecutive_failures := Some 3, max_failures := Some 3,
           final_response_after_failure := Some False\<rparr>) = Done
   \<and> should_continue_after_think_guard d
        (s\<lparr>consecutive_failures := Some 2, max_failures := Some 3,
           final_response_after_failure := Some False\<rparr>) \<noteq> MaxFailuresReached
   \<and> should_continue_after_think_guard d
        (s\<lparr>consecutive_failures := Some 3, max_failures := Some 3,
           final_response_after_failure := None\<rparr>) \<noteq> MaxFailuresReached
   \<and> should_continue_after_think_guard d
        (s\<lparr>consecutive_failures := None, max_failures := None,
           final_response_after_failure := None\<rparr>) \<noteq> MaxFailuresReached
   \<and> should_continue_after_think_guard d
        (s\<lparr>consecutive_failures := Some 4, max_failures := None,
           final_response_after_failure := None\<rparr>) =
        (if truthy_bool (completed s) then TaskCompleted
         else if truthy_str (error s) then ThinkError else MaxFailuresReached)
   \<and> int_of_bool True = 1 \<and> int_of_bool False = 0
   \<and> get_or None x = x \<and> get_or (Some y) x = y
   \<and> \<not> truthy_bool None \<and> truthy_bool (Some b) = b
   \<and> \<not> truthy_str None \<and> truthy_str (Some t) = (t \<noteq> [])
   \<and> route_of_guard MaxFailuresReached = Done"
  by (simp add: should_continue_after_think_guard_def should_continue_after_think_def
      get_or_def int_of_bool_def truthy_bool_def truthy_str_def)


subsection \<open>The consecutive-failure counter and the ACT wrapper\<close>

text \<open>
  Claim C1 says that the consecutive-failure counter is incremented when an action
  outcome is unsuccessful and reset to 0 on a successful one. The dictionary returned
  by \<open>act_wrapper_node\<close> never holds the key \<open>consecutive_failures\<close>, whatever the
  outcome: the counter read by the routers keeps its value. A failed outcome (no
  actions generated) leaves a counter of 0 at 0 and only sets
  \<open>last_act_result_success\<close> to false; a successful outcome leaves a counter of 2 at 2.
\<close>

theorem act_wrapper_node_never_counts_failures:
  "apply_update state (act_wrapper_node outcome) ''consecutive_failures''
     = state ''consecutive_failures''
   \<and> apply_update [''consecutive_failures'' \<mapsto> PyInt 0] (act_wrapper_node NoActionsGenerated)
         ''consecutive_failures'' = Some (PyInt 0)
   \<and> apply_update [''consecutive_failures'' \<mapsto> PyInt 0] (act_wrapper_node NoActionsGenerated)
         ''last_act_result_success'' = Some (PyBool False)
   \<and> apply_update [''consecutive_failures'' \<mapsto> PyInt 2] (act_wrapper_node (Executed [True, True] 2))
         ''consecutive_failures'' = Some (PyInt 2)"
  by (cases outcome) (simp_all add: apply_update_def map_add_def)


subsection \<open>Action repetition\<close>





subsection \<open>Marking a step of the checklist\<close>

text \<open>
  Claim C4, as stated, fails: both functions only look at lines after a
  \<open>## Tasks\<close> (or \<open>## Steps\<close>) header. On the two checkbox lines without a header,
  marking step 0 returns the text unchanged, and no current step is found.
\<close>

theorem mark_without_header_changes_nothing:
  "mark_step_completed ''- [ ] step1\<newline>- [ ] step2'' 0 \<noteq> ''- [x] step1\<newline>- [ ] step2''
   \<and> mark_step_completed ''- [ ] step1\<newline>- [ ] step2'' 0 = ''- [ ] step1\<newline>- [ ] step2''
   \<and> get_current_step (mark_step_completed ''- [ ] step1\<newline>- [ ] step2'' 0) = None"
proof -
  have m: "mark_step_completed ''- [ ] step1\<newline>- [ ] step2'' 0
             = ''- [ ] step1\<newline>- [ ] step2''"
    by code_simp
  have g: "get_current_step ''- [ ] step1\<newline>- [ ] step2'' = None"
    by code_simp
  show ?thesis unfolding m using g by simp
qed

text \<open>
  Claim C4, amended. For the checklist text with the task header,
  \<open>## Tasks:\<close> followed by \<open>- [ ] step1\<close> and \<open>- [ ] step2\<close>, marking step 0
  yields exactly the same text with \<open>- [x] step1\<close>, and the current step of the
  result is the record of step2 (index 1, not completed).
\<close>

theorem mark_first_step_with_header:
  "mark_step_completed ''## Tasks:\<newline>- [ ] step1\<newline>- [ ] step2'' 0
     = ''## Tasks:\<newline>- [x] step1\<newline>- [ ] step2''
   \<and> get_current_step (mark_step_completed ''## Tasks:\<newline>- [ ] step1\<newline>- [ ] step2'' 0)
     = Some \<lparr>s_index = 1, s_text = ''step2'', s_completed = False\<rparr>"
proof -
  have m: "mark_step_completed ''## Tasks:\<newline>- [ ] step1\<newline>- [ ] step2'' 0
     = ''## Tasks:\<newline>- [x] step1\<newline>- [ ] step2''"
    by code_simp
  have g: "get_current_step ''## Tasks:\<newline>- [x] step1\<newline>- [ ] step2''
     = Some \<lparr>s_index = 1, s_text = ''step2'', s_completed = False\<rparr>"
    by code_simp
  show ?thesis unfolding m using g by simp
qed


subsection \<open>Marking steps of a checklist in the documented format\<close>

text \<open>Splitting into lines and joining them again.\<close>

lemma join_split_on: "join [sep] (split_on sep t) = t"
proof (induction t)
  case Nil
  then show ?case by simp
next
  case (Cons c cs)
  then show ?case
    by (cases "split_on sep cs"; cases "tl (split_on sep cs)") (auto split: list.splits)
qed

lemma split_on_not_Nil: "split_on sep t \<noteq> []"
  by (induction t) (auto split: list.splits)

lemma split_on_no_sep: "l \<in> set (split_on sep t) \<Longrightarrow> sep \<notin> set l"
  by (induction t arbitrary: l) (auto split: list.splits if_splits)

lemma split_on_subset: "l \<in> set (split_on sep t) \<Longrightarrow> set l \<subseteq> set t"
proof (induction t arbitrary: l)
  case Nil
  then show ?case by simp
next
  case (Cons c cs)
  show ?case
  proof (cases "c = sep")
    case True
    with Cons show ?thesis by auto
  next
    case False
    obtain p ps where ps: "split_on sep cs = p # ps"
      using split_on_not_Nil [of sep cs] by (cases "split_on sep cs") auto
    with False Cons.prems have "l = c # p \<or> l \<in> set ps" by simp
    moreover have "set p \<subseteq> set cs" using Cons.IH [of p] ps by simp
    moreover have "l \<in> set ps \<Longrightarrow> set l \<subseteq> set cs" using Cons.IH [of l] ps by simp
    ultimately show ?thesis by auto
  qed
qed

lemma split_on_append_no_sep:
  "sep \<notin> set p \<Longrightarrow> split_on sep (p @ sep # rest) = p # split_on sep rest"
  by (induction p) (auto split: list.splits)

lemma split_on_no_sep_id: "sep \<notin> set p \<Longrightarrow> split_on sep p = [p]"
  by (induction p) (auto split: list.splits)

lemma split_on_join:
  "ls \<noteq> [] \<Longrightarrow> \<forall>l\<in>set ls. sep \<notin> set l \<Longrightarrow> split_on sep (join [sep] ls) = ls"
proof (induction ls)
  case Nil
  then show ?case by simp
next
  case (Cons p ps)
  show ?case
  proof (cases ps)
    case Nil
    with Cons.prems show ?thesis by (simp add: split_on_no_sep_id)
  next
    case (Cons q qs)
    with Cons.prems Cons.IH show ?thesis by (simp add: split_on_append_no_sep)
  qed
qed

lemma strip_Nil_iff: "strip s = [] \<longleftrightarrow> (\<forall>c\<in>set s. is_space c)"
proof -
  have "strip s = [] \<longleftrightarrow> (\<forall>c\<in>set (dropWhile is_space s). is_space c)"
    by (simp add: strip_def)
  also have "\<dots> \<longleftrightarrow> dropWhile is_space s = []"
  proof (cases "dropWhile is_space s")
    case Nil
    then show ?thesis by (simp del: dropWhile_eq_Nil_conv)
  next
    case (Cons d ds)
    with hd_dropWhile [of is_space s] have "\<not> is_space d" by simp
    with Cons show ?thesis by auto
  qed
  also have "\<dots> \<longleftrightarrow> (\<forall>c\<in>set s. is_space c)"
    by simp
  finally show ?thesis .
qed

lemma strip_id:
  "s \<noteq> [] \<Longrightarrow> \<not> is_space (hd s) \<Longrightarrow> \<not> is_space (last s) \<Longrightarrow> strip s = s"
proof -
  assume a: "s \<noteq> []" "\<not> is_space (hd s)" "\<not> is_space (last s)"
  then have 1: "dropWhile is_space s = s"
    by (simp add: dropWhile_eq_self_iff)
  from a have 2: "dropWhile is_space (rev s) = rev s"
    by (simp add: dropWhile_eq_self_iff hd_rev)
  show ?thesis by (simp add: strip_def 1 2)
qed

lemma strip_id_D:
  assumes "strip s = s" and "s \<noteq> []"
  shows "\<not> is_space (hd s) \<and> \<not> is_space (last s)"
proof -
  have len: "length (strip s) \<le> length (dropWhile is_space s)"
    unfolding strip_def by (metis length_rev length_dropWhile_le)
  have h: "\<not> is_space (hd s)"
  proof
    assume "is_space (hd s)"
    with assms(2) have "length (dropWhile is_space s) < length s"
      by (cases s) (auto simp add: le_imp_less_Suc length_dropWhile_le)
    with len assms(1) show False by simp
  qed
  with assms(2) have d: "dropWhile is_space s = s"
    by (simp add: dropWhile_eq_self_iff)
  with assms(1) have "dropWhile is_space (rev s) = rev s"
    by (simp add: strip_def) (metis rev_swap)
  with assms(2) have "\<not> is_space (hd (rev s))"
    by (simp add: dropWhile_eq_self_iff)
  with assms(2) h show ?thesis by (simp add: hd_rev)
qed

lemma star_dot_at_end:
  "CHR 0x0A \<notin> set cs \<Longrightarrow> filter at_end (star_remainders Dot cs) = [[]]"
  by (induction cs) (auto simp add: at_end_def)

lemma star_dot_ex_at_end:
  "CHR 0x0A \<notin> set cs \<Longrightarrow> list_ex at_end (star_remainders Dot cs)"
  by (induction cs) (auto simp add: at_end_def)

lemma is_space_consts [simp]:
  "is_space CHR '' ''" "\<not> is_space CHR ''[''" "\<not> is_space CHR '']''"
  "\<not> is_space CHR ''x''" "\<not> is_space CHR ''-''" "\<not> is_space CHR ''X''" "\<not> is_space CHR ''#''"
  by (simp_all add: is_space_def)

lemma concat_map_if:
  "concat (map (\<lambda>t. if P t then [g t] else []) xs) = map g (filter P xs)"
  by (induction xs) auto

lemma canonical_itemD:
  assumes "canonical_item l"
  obtains p c cs where "l = p @ c # cs" and "p = ''- [ ] '' \<or> p = ''- [x] ''"
    and "\<not> is_space c" and "\<not> is_space (last (c # cs))" and "CHR 0x0A \<notin> set (c # cs)"
proof -
  from assms have t: "take 6 l = ''- [ ] '' \<or> take 6 l = ''- [x] ''"
    and d: "drop 6 l \<noteq> []" and s: "strip (drop 6 l) = drop 6 l" and n: "CHR 0x0A \<notin> set l"
    by (simp_all add: canonical_item_def)
  from d obtain c cs where ccs: "drop 6 l = c # cs" by (cases "drop 6 l") auto
  have l: "l = take 6 l @ c # cs" using ccs by (metis append_take_drop_id)
  from strip_id_D [OF s d] ccs have "\<not> is_space c" "\<not> is_space (last (c # cs))" by simp_all
  moreover from n ccs have "CHR 0x0A \<notin> set (c # cs)" by (metis in_set_dropD)
  ultimately show ?thesis using that [of "take 6 l" c cs] l t by blast
qed

lemma item_facts:
  assumes "p = ''- [ ] '' \<or> p = ''- [x] ''"
    and "\<not> is_space c" and "\<not> is_space (last (c # cs))" and "CHR 0x0A \<notin> set (c # cs)"
  shows item_strip: "strip (p @ c # cs) = p @ c # cs"
    and item_not_header: "\<not> is_tasks_header (p @ c # cs)"
    and item_not_section: "\<not> startswith (p @ c # cs) ''##''"
    and item_is_task_item: "is_task_item (p @ c # cs)"
    and item_mark_checkbox: "mark_checkbox (p @ c # cs) = ''- [x] '' @ c # cs"
    and item_completed_match:
      "re_match_group completed_head step_text_group (p @ c # cs)
         = (if p = ''- [x] '' then Some (c # cs) else None)"
    and item_pending_match:
      "re_match_group pending_head step_text_group (p @ c # cs)
         = (if p = ''- [ ] '' then Some (c # cs) else None)"
proof -
  show "strip (p @ c # cs) = p @ c # cs"
    using assms by (intro strip_id) auto
  show "\<not> is_tasks_header (p @ c # cs)"
    using assms(1) by (auto simp add: is_tasks_header_def startswith_def)
  show "\<not> startswith (p @ c # cs) ''##''"
    using assms(1) by (auto simp add: startswith_def)
  have e: "list_ex at_end (star_remainders Dot cs)"
    using assms(4) by (simp add: star_dot_ex_at_end)
  have f: "filter at_end (star_remainders Dot cs) = [[]]"
    using assms(4) by (simp add: star_dot_at_end)
  show "is_task_item (p @ c # cs)"
    using assms e
    by (auto simp add: is_task_item_def re_match_all_def task_item_pattern_def startswith_def)
  show "mark_checkbox (p @ c # cs) = ''- [x] '' @ c # cs"
    using assms by (auto simp add: mark_checkbox_def startswith_def)
  show "re_match_group completed_head step_text_group (p @ c # cs)
         = (if p = ''- [x] '' then Some (c # cs) else None)"
    using assms f
    by (auto simp add: re_match_group_def completed_head_def step_text_group_def startswith_def
        concat_map_if)
  show "re_match_group pending_head step_text_group (p @ c # cs)
         = (if p = ''- [ ] '' then Some (c # cs) else None)"
    using assms f
    by (auto simp add: re_match_group_def pending_head_def step_text_group_def startswith_def
        concat_map_if)
qed

lemma blank_facts:
  shows blank_not_header: "\<not> is_tasks_header []"
    and blank_not_task_item: "\<not> is_task_item []"
    and blank_completed_match: "re_match_group completed_head step_text_group [] = None"
    and blank_pending_match: "re_match_group pending_head step_text_group [] = None"
    and blank_not_section: "\<not> is_other_section []"
  by (simp_all add: is_tasks_header_def is_task_item_def re_match_all_def task_item_pattern_def
      startswith_def re_match_group_def completed_head_def pending_head_def is_other_section_def)

lemma canonical_set_done: "canonical_item l \<Longrightarrow> canonical_item (set_done l)"
  by (auto simp add: canonical_item_def set_done_def dest: in_set_dropD)

lemma set_done_id: "take 6 l = ''- [x] '' \<Longrightarrow> set_done l = l"
  unfolding set_done_def by (metis append_take_drop_id)

lemma set_done_idem: "set_done (set_done l) = set_done l"
  by (simp add: set_done_def)

lemma mark_lines_item:
  assumes "canonical_item l"
  shows "mark_lines True k i (l # rest) =
     (if k = i then set_done l # mark_lines True (k + 1) i rest
      else l # mark_lines True (k + 1) i rest)"
proof -
  from assms obtain p c cs where l: "l = p @ c # cs" and p: "p = ''- [ ] '' \<or> p = ''- [x] ''"
    and a: "\<not> is_space c" "\<not> is_space (last (c # cs))" "CHR 0x0A \<notin> set (c # cs)"
    by (rule canonical_itemD)
  have d: "set_done l = ''- [x] '' @ c # cs" using l p by (auto simp add: set_done_def)
  show ?thesis
    unfolding d unfolding l
    by (simp add: Let_def item_strip [OF p a] item_not_header [OF p a]
        item_not_section [OF p a] item_is_task_item [OF p a] item_mark_checkbox [OF p a])
qed

lemma mark_lines_blank:
  "strip l = [] \<Longrightarrow> mark_lines True k i (l # rest) = l # mark_lines True k i rest"
  by (simp add: Let_def blank_not_header blank_not_task_item startswith_def)

lemma parse_lines_item:
  assumes "canonical_item l"
  shows "parse_lines True k (l # rest) =
     (case parse_lines True (k + 1) rest of
        (c, p) \<Rightarrow> if take 6 l = ''- [x] ''
                  then (\<lparr>s_index = k, s_text = drop 6 l, s_completed = True\<rparr> # c, p)
                  else (c, \<lparr>s_index = k, s_text = drop 6 l, s_completed = False\<rparr> # p))"
proof -
  from assms obtain p c cs where l: "l = p @ c # cs" and p: "p = ''- [ ] '' \<or> p = ''- [x] ''"
    and a: "\<not> is_space c" "\<not> is_space (last (c # cs))" "CHR 0x0A \<notin> set (c # cs)"
    by (rule canonical_itemD)
  have s: "strip (c # cs) = c # cs" using a by (intro strip_id) auto
  have t: "take 6 l = p" "drop 6 l = c # cs" using l p by auto
  have o: "\<not> is_other_section (p @ c # cs)"
    using item_not_section [OF p a] by (simp add: is_other_section_def)
  show ?thesis
    unfolding t unfolding l using p
    by (auto simp add: Let_def item_strip [OF p a] item_not_header [OF p a] o
        item_completed_match [OF p a] item_pending_match [OF p a] s split: prod.splits)
qed

lemma parse_lines_blank:
  "strip l = [] \<Longrightarrow> parse_lines True k (l # rest) = parse_lines True k rest"
  by (simp add: Let_def blank_not_header blank_not_section blank_completed_match
      blank_pending_match)

lemma mark_lines_past: "i < k \<Longrightarrow> mark_lines st k i ls = ls"
  by (induction ls arbitrary: st k) (auto simp add: Let_def)

lemma parse_lines_index_ge:
  "list_all item_or_blank items \<Longrightarrow>
   s \<in> set (fst (parse_lines True k items)) \<union> set (snd (parse_lines True k items)) \<Longrightarrow>
   k \<le> s_index s"
proof (induction items arbitrary: k)
  case Nil
  then show ?case by simp
next
  case (Cons l rest)
  from Cons.prems(1) have r: "list_all item_or_blank rest" by simp
  show ?case
  proof (cases "canonical_item l")
    case True
    from Cons.prems(2) have "s_index s = k
        \<or> s \<in> set (fst (parse_lines True (k + 1) rest)) \<union> set (snd (parse_lines True (k + 1) rest))"
      by (auto simp add: parse_lines_item [OF True] simp del: parse_lines.simps
          split: prod.splits if_splits)
    then show ?thesis using Cons.IH [OF r, of "k + 1"] by auto
  next
    case False
    with Cons.prems(1) have "strip l = []" by (simp add: item_or_blank_def)
    with Cons.prems(2) Cons.IH [OF r, of k] show ?thesis
      by (simp add: parse_lines_blank del: parse_lines.simps)
  qed
qed

lemma find_skip: "\<not> P s \<Longrightarrow> find P (c @ s # p) = find P (c @ p)"
  by (induction c) auto

lemma find_hit: "P s \<Longrightarrow> \<forall>x\<in>set c. \<not> P x \<Longrightarrow> find P (c @ s # p) = Some s"
  by (induction c) auto

lemma lookup_item:
  assumes "canonical_item l" and "list_all item_or_blank rest"
  shows "lookup k (l # rest) j =
     (if j = k then Some \<lparr>s_index = k, s_text = drop 6 l, s_completed = (take 6 l = ''- [x] '')\<rparr>
      else lookup (k + 1) rest j)"
proof -
  obtain c p where cp: "parse_lines True (k + 1) rest = (c, p)" by (cases "parse_lines True (k + 1) rest")
  have ge: "\<forall>x\<in>set c. s_index x \<noteq> k"
    using parse_lines_index_ge [OF assms(2), of _ "k + 1"] cp by fastforce
  show ?thesis
    using ge
    by (auto simp add: lookup_def parse_lines_item [OF assms(1)] cp find_skip find_hit
        simp del: parse_lines.simps)
qed

lemma lookup_blank: "strip l = [] \<Longrightarrow> lookup k (l # rest) j = lookup k rest j"
  by (simp add: lookup_def parse_lines_blank del: parse_lines.simps)

lemma mark_lines_valid:
  "list_all item_or_blank items \<Longrightarrow> list_all item_or_blank (mark_lines True k i items)"
proof (induction items arbitrary: k)
  case Nil
  then show ?case by simp
next
  case (Cons l rest)
  from Cons.prems have r: "list_all item_or_blank rest" by simp
  show ?case
  proof (cases "canonical_item l")
    case True
    then show ?thesis
      using Cons.IH [OF r, of "k + 1"] canonical_set_done [OF True]
      by (auto simp add: mark_lines_item [OF True] item_or_blank_def simp del: mark_lines.simps)
  next
    case False
    with Cons.prems have b: "strip l = []" by (simp add: item_or_blank_def)
    show ?thesis using Cons.IH [OF r, of k] b
      by (simp add: mark_lines_blank [OF b] item_or_blank_def del: mark_lines.simps)
  qed
qed

lemma mark_lines_no_newline:
  "list_all item_or_blank items \<Longrightarrow> \<forall>l\<in>set items. CHR 0x0A \<notin> set l \<Longrightarrow>
   \<forall>l\<in>set (mark_lines True k i items). CHR 0x0A \<notin> set l"
proof (induction items arbitrary: k)
  case Nil
  then show ?case by simp
next
  case (Cons l rest)
  from Cons.prems have r: "list_all item_or_blank rest" "\<forall>l\<in>set rest. CHR 0x0A \<notin> set l"
    and n: "CHR 0x0A \<notin> set l" by simp_all
  show ?case
  proof (cases "canonical_item l")
    case True
    have "CHR 0x0A \<notin> set (set_done l)"
      using canonical_set_done [OF True] by (simp add: canonical_item_def)
    then show ?thesis
      using Cons.IH [OF r, of "k + 1"] n
      by (auto simp add: mark_lines_item [OF True] simp del: mark_lines.simps)
  next
    case False
    with Cons.prems have b: "strip l = []" by (simp add: item_or_blank_def)
    show ?thesis using Cons.IH [OF r, of k] n
      by (simp add: mark_lines_blank [OF b] del: mark_lines.simps)
  qed
qed

lemma mark_lines_idem:
  "list_all item_or_blank items \<Longrightarrow>
   mark_lines True k i (mark_lines True k i items) = mark_lines True k i items"
proof (induction items arbitrary: k)
  case Nil
  then show ?case by simp
next
  case (Cons l rest)
  from Cons.prems have r: "list_all item_or_blank rest" by simp
  show ?case
  proof (cases "canonical_item l")
    case True
    show ?thesis
    proof (cases "k = i")
      case ki: True
      have m: "mark_lines True (i + 1) i rest = rest" by (simp add: mark_lines_past)
      show ?thesis using ki
        by (simp add: mark_lines_item [OF True] mark_lines_item [OF canonical_set_done [OF True]]
            m set_done_idem del: mark_lines.simps)
    next
      case False
      then show ?thesis using Cons.IH [OF r, of "k + 1"]
        by (simp add: mark_lines_item [OF True] del: mark_lines.simps)
    qed
  next
    case False
    with Cons.prems have b: "strip l = []" by (simp add: item_or_blank_def)
    show ?thesis using Cons.IH [OF r, of k]
      by (simp add: mark_lines_blank [OF b] del: mark_lines.simps)
  qed
qed

lemma lookup_mark_lines:
  "list_all item_or_blank items \<Longrightarrow>
   lookup k (mark_lines True k i items) j =
     (if j = i then map_option (\<lambda>s. s\<lparr>s_completed := True\<rparr>) (lookup k items i)
      else lookup k items j)"
proof (induction items arbitrary: k)
  case Nil
  then show ?case by (simp add: lookup_def)
next
  case (Cons l rest)
  from Cons.prems have r: "list_all item_or_blank rest" by simp
  show ?case
  proof (cases "canonical_item l")
    case True
    show ?thesis
    proof (cases "k = i")
      case ki: True
      have m: "mark_lines True (i + 1) i rest = rest" by (simp add: mark_lines_past)
      have t: "take 6 (set_done l) = ''- [x] ''" "drop 6 (set_done l) = drop 6 l"
        by (simp_all add: set_done_def)
      show ?thesis
        using ki
        by (simp add: mark_lines_item [OF True] m lookup_item [OF canonical_set_done [OF True] r]
            lookup_item [OF True r] t del: mark_lines.simps parse_lines.simps)
    next
      case False
      have r': "list_all item_or_blank (mark_lines True (k + 1) i rest)"
        using r by (rule mark_lines_valid)
      show ?thesis
        using False Cons.IH [OF r, of "k + 1"]
        by (auto simp add: mark_lines_item [OF True] lookup_item [OF True r'] lookup_item [OF True r]
            simp del: mark_lines.simps parse_lines.simps)
    qed
  next
    case False
    with Cons.prems have b: "strip l = []" by (simp add: item_or_blank_def)
    show ?thesis using Cons.IH [OF r, of k]
      by (simp add: mark_lines_blank [OF b] lookup_blank [OF b] del: mark_lines.simps parse_lines.simps)
  qed
qed

lemma mark_lines_completed_noop:
  "list_all item_or_blank items \<Longrightarrow> lookup k items i = Some s \<Longrightarrow> s_completed s \<Longrightarrow>
   mark_lines True k i items = items"
proof (induction items arbitrary: k)
  case Nil
  then show ?case by simp
next
  case (Cons l rest)
  from Cons.prems have r: "list_all item_or_blank rest" by simp
  show ?case
  proof (cases "canonical_item l")
    case True
    show ?thesis
    proof (cases "k = i")
      case ki: True
      have m: "mark_lines True (i + 1) i rest = rest" by (simp add: mark_lines_past)
      from Cons.prems(2,3) ki have "take 6 l = ''- [x] ''"
        by (auto simp add: lookup_item [OF True r])
      then have "set_done l = l" by (rule set_done_id)
      then show ?thesis using ki
        by (simp add: mark_lines_item [OF True] m del: mark_lines.simps)
    next
      case False
      with Cons.prems(2) have "lookup (k + 1) rest i = Some s"
        by (simp add: lookup_item [OF True r])
      from Cons.IH [OF r this Cons.prems(3)] False show ?thesis
        by (simp add: mark_lines_item [OF True] del: mark_lines.simps)
    qed
  next
    case False
    with Cons.prems have b: "strip l = []" by (simp add: item_or_blank_def)
    from Cons.prems(2) have "lookup k rest i = Some s" by (simp add: lookup_blank [OF b])
    from Cons.IH [OF r this Cons.prems(3)] show ?thesis
      by (simp add: mark_lines_blank [OF b] del: mark_lines.simps)
  qed
qed

lemma mark_lines_preamble:
  "\<forall>l\<in>set pre. \<not> is_tasks_header (strip l) \<Longrightarrow>
   mark_lines False k i (pre @ rest) = pre @ mark_lines False k i rest"
  by (induction pre) (simp_all add: Let_def)

lemma parse_lines_preamble:
  "\<forall>l\<in>set pre. \<not> is_tasks_header (strip l) \<Longrightarrow>
   parse_lines False k (pre @ rest) = parse_lines False k rest"
  by (induction pre) (simp_all add: Let_def)

lemma mark_lines_header:
  "is_tasks_header (strip h) \<Longrightarrow> mark_lines st k i (h # items) = h # mark_lines True k i items"
  by (simp add: Let_def)

lemma parse_lines_header:
  "is_tasks_header (strip h) \<Longrightarrow> parse_lines st k (h # items) = parse_lines True k items"
  by (simp add: Let_def)

lemma header_not_blank: "is_tasks_header s \<Longrightarrow> s \<noteq> []"
  by (auto simp add: is_tasks_header_def startswith_def)

lemma lines_with_header_not_blank:
  assumes "split_on CHR 0x0A t = pre @ h # items" and "is_tasks_header (strip h)"
  shows "t \<noteq> [] \<and> strip t \<noteq> []"
proof -
  from assms(2) have "strip h \<noteq> []" by (rule header_not_blank)
  then obtain c where c: "c \<in> set h" "\<not> is_space c" by (auto simp add: strip_Nil_iff)
  have "h \<in> set (split_on CHR 0x0A t)" using assms(1) by simp
  then have "set h \<subseteq> set t" by (rule split_on_subset)
  with c have "c \<in> set t" by auto
  with c(2) show ?thesis by (auto simp add: strip_Nil_iff)
qed

lemma valid_checklistD:
  assumes "valid_checklist t"
  obtains pre h items where "split_on CHR 0x0A t = pre @ h # items"
    and "\<forall>l\<in>set pre. \<not> is_tasks_header (strip l)" and "is_tasks_header (strip h)"
    and "list_all item_or_blank items"
proof -
  let ?P = "\<lambda>line. \<not> is_tasks_header (strip line)"
  let ?ls = "split_on CHR 0x0A t"
  from assms obtain h items where d: "dropWhile ?P ?ls = h # items"
    and v: "list_all item_or_blank items"
    by (auto simp add: valid_checklist_def split: list.splits)
  have 1: "?ls = takeWhile ?P ?ls @ h # items"
    using d by (metis takeWhile_dropWhile_id)
  have 2: "\<forall>l\<in>set (takeWhile ?P ?ls). ?P l"
    by (auto dest: set_takeWhileD)
  have 3: "is_tasks_header (strip h)"
    using hd_dropWhile [of ?P ?ls] d by simp
  show ?thesis using that [OF 1 2 3 v] .
qed

lemma valid_checklistI:
  assumes "split_on CHR 0x0A t = pre @ h # items"
    and "\<forall>l\<in>set pre. \<not> is_tasks_header (strip l)" and "is_tasks_header (strip h)"
    and "list_all item_or_blank items"
  shows "valid_checklist t"
  using assms by (simp add: valid_checklist_def dropWhile_append3)

lemma parse_todo_steps_lines:
  assumes "split_on CHR 0x0A t = pre @ h # items"
    and "\<forall>l\<in>set pre. \<not> is_tasks_header (strip l)" and "is_tasks_header (strip h)"
  shows "parse_todo_steps t = parse_lines True 0 items"
  using lines_with_header_not_blank [OF assms(1,3)]
  by (simp add: parse_todo_steps_def assms(1) parse_lines_preamble [OF assms(2)]
      parse_lines_header [OF assms(3)] del: parse_lines.simps)

lemma find_step_lines:
  assumes "split_on CHR 0x0A t = pre @ h # items"
    and "\<forall>l\<in>set pre. \<not> is_tasks_header (strip l)" and "is_tasks_header (strip h)"
  shows "find_step t j = lookup 0 items j"
  by (simp add: find_step_def lookup_def parse_todo_steps_lines [OF assms])

lemma mark_step_completed_lines:
  assumes "split_on CHR 0x0A t = pre @ h # items"
    and "\<forall>l\<in>set pre. \<not> is_tasks_header (strip l)" and "is_tasks_header (strip h)"
  shows "mark_step_completed t i = join [CHR 0x0A] (pre @ h # mark_lines True 0 i items)"
  by (simp add: mark_step_completed_def assms(1) mark_lines_preamble [OF assms(2)]
      mark_lines_header [OF assms(3)] del: mark_lines.simps)

lemma split_mark_step_completed:
  assumes "split_on CHR 0x0A t = pre @ h # items"
    and "\<forall>l\<in>set pre. \<not> is_tasks_header (strip l)" and "is_tasks_header (strip h)"
    and "list_all item_or_blank items"
  shows "split_on CHR 0x0A (mark_step_completed t i) = pre @ h # mark_lines True 0 i items"
proof -
  have n: "\<forall>l\<in>set (pre @ h # items). CHR 0x0A \<notin> set l"
    using split_on_no_sep [of _ "CHR 0x0A" t] assms(1) by metis
  then have "\<forall>l\<in>set items. CHR 0x0A \<notin> set l" by simp
  from mark_lines_no_newline [OF assms(4) this]
  have "\<forall>l\<in>set (mark_lines True 0 i items). CHR 0x0A \<notin> set l" .
  with n have "\<forall>l\<in>set (pre @ h # mark_lines True 0 i items). CHR 0x0A \<notin> set l" by auto
  then show ?thesis
    unfolding mark_step_completed_lines [OF assms(1-3)]
    by (intro split_on_join) simp_all
qed


text \<open>
  Claim C5, as stated, fails. The parser counts \<open>- [X] a\<close> as a completed step, but
  marking that step again rewrites the line to \<open>- [x] a\<close>: the text is not left as it
  was. And on a checklist written exactly in the documented format, marking the
  already completed step 0 flips no flag at all: the parsed steps are the same before
  and after.
\<close>

theorem remark_completed_step_counterexample:
  "map_option s_completed
      (find_step ''# Todo\<newline>## Goal: g\<newline>## Tasks:\<newline>- [X] a\<newline>- [ ] b'' 0) = Some True
   \<and> mark_step_completed ''# Todo\<newline>## Goal: g\<newline>## Tasks:\<newline>- [X] a\<newline>- [ ] b'' 0
       \<noteq> ''# Todo\<newline>## Goal: g\<newline>## Tasks:\<newline>- [X] a\<newline>- [ ] b''
   \<and> valid_checklist ''# Todo\<newline>## Goal: g\<newline>## Tasks:\<newline>- [x] a\<newline>- [ ] b''
   \<and> parse_todo_steps
        (mark_step_completed ''# Todo\<newline>## Goal: g\<newline>## Tasks:\<newline>- [x] a\<newline>- [ ] b'' 0)
       = parse_todo_steps ''# Todo\<newline>## Goal: g\<newline>## Tasks:\<newline>- [x] a\<newline>- [ ] b''"
proof -
  have f: "map_option s_completed
      (find_step ''# Todo\<newline>## Goal: g\<newline>## Tasks:\<newline>- [X] a\<newline>- [ ] b'' 0) = Some True"
    by code_simp
  have m: "mark_step_completed ''# Todo\<newline>## Goal: g\<newline>## Tasks:\<newline>- [X] a\<newline>- [ ] b'' 0
       = ''# Todo\<newline>## Goal: g\<newline>## Tasks:\<newline>- [x] a\<newline>- [ ] b''"
    by code_simp
  have v: "valid_checklist ''# Todo\<newline>## Goal: g\<newline>## Tasks:\<newline>- [x] a\<newline>- [ ] b''"
    by code_simp
  have n: "mark_step_completed ''# Todo\<newline>## Goal: g\<newline>## Tasks:\<newline>- [x] a\<newline>- [ ] b'' 0
       = ''# Todo\<newline>## Goal: g\<newline>## Tasks:\<newline>- [x] a\<newline>- [ ] b''"
    by code_simp
  show ?thesis unfolding m n using f v by simp
qed

text \<open>
  Claim C5, amended. For every checklist in the documented format (after the task
  header, items written \<open>- [ ] text\<close> or \<open>- [x] text\<close> and blank lines) and every
  index: marking twice gives the same text as marking once; marking an index whose
  step is already complete returns the input text unchanged; and marking flips the
  flag of the step with that index when it is pending and changes no other step, so
  that exactly one flag flips for a pending index and none for a completed or absent
  one. The result is again in the documented format.
\<close>

theorem mark_step_completed_valid_checklist:
  assumes "valid_checklist t"
  shows "mark_step_completed (mark_step_completed t i) i = mark_step_completed t i
    \<and> (map_option s_completed (find_step t i) = Some True \<longrightarrow> mark_step_completed t i = t)
    \<and> (\<forall>k. find_step (mark_step_completed t i) k =
          (if k = i then map_option (\<lambda>s. s\<lparr>s_completed := True\<rparr>) (find_step t i)
           else find_step t k))
    \<and> valid_checklist (mark_step_completed t i)"
proof -
  from assms obtain pre h items where s: "split_on CHR 0x0A t = pre @ h # items"
    and p: "\<forall>l\<in>set pre. \<not> is_tasks_header (strip l)" and h: "is_tasks_header (strip h)"
    and v: "list_all item_or_blank items"
    by (rule valid_checklistD)
  let ?t' = "mark_step_completed t i"
  have s': "split_on CHR 0x0A ?t' = pre @ h # mark_lines True 0 i items"
    using s p h v by (rule split_mark_step_completed)
  have v': "list_all item_or_blank (mark_lines True 0 i items)"
    using v by (rule mark_lines_valid)
  have idem: "mark_step_completed ?t' i = ?t'"
    unfolding mark_step_completed_lines [OF s' p h] mark_lines_idem [OF v]
    unfolding mark_step_completed_lines [OF s p h] ..
  have noop: "map_option s_completed (find_step t i) = Some True \<longrightarrow> ?t' = t"
  proof
    assume "map_option s_completed (find_step t i) = Some True"
    then obtain st where "lookup 0 items i = Some st" "s_completed st"
      by (auto simp add: find_step_lines [OF s p h])
    from mark_lines_completed_noop [OF v this]
    have "?t' = join [CHR 0x0A] (split_on CHR 0x0A t)"
      unfolding mark_step_completed_lines [OF s p h] s by simp
    then show "?t' = t" by (simp add: join_split_on)
  qed
  have flags: "\<forall>k. find_step ?t' k =
          (if k = i then map_option (\<lambda>s. s\<lparr>s_completed := True\<rparr>) (find_step t i)
           else find_step t k)"
    by (simp add: find_step_lines [OF s' p h] find_step_lines [OF s p h] lookup_mark_lines [OF v])
  have valid: "valid_checklist ?t'"
    using s' p h v' by (rule valid_checklistI)
  from idem noop flags valid show ?thesis by blast
qed

theorem mark_step_completed_valid_checklist_witness:
  "valid_checklist ''# Todo\<newline>## Goal: g\<newline>## Tasks:\<newline>- [x] a\<newline>- [ ] b\<newline>''
   \<and> mark_step_completed ''# Todo\<newline>## Goal: g\<newline>## Tasks:\<newline>- [x] a\<newline>- [ ] b\<newline>'' 0
       = ''# Todo\<newline>## Goal: g\<newline>## Tasks:\<newline>- [x] a\<newline>- [ ] b\<newline>''
   \<and> find_step
        (mark_step_completed ''# Todo\<newline>## Goal: g\<newline>## Tasks:\<newline>- [x] a\<newline>- [ ] b\<newline>'' 1) 1
       = Some \<lparr>s_index = 1, s_text = ''b'', s_completed = True\<rparr>
   \<and> find_step
        (mark_step_completed ''# Todo\<newline>## Goal: g\<newline>## Tasks:\<newline>- [x] a\<newline>- [ ] b\<newline>'' 1) 0
       = Some \<lparr>s_index = 0, s_text = ''a'', s_completed = True\<rparr>"
proof -
  let ?t = "''# Todo\<newline>## Goal: g\<newline>## Tasks:\<newline>- [x] a\<newline>- [ ] b\<newline>''"
  have v: "valid_checklist ?t"
    by code_simp
  have f0: "find_step ?t 0 = Some \<lparr>s_index = 0, s_text = ''a'', s_completed = True\<rparr>"
    by code_simp
  have f1: "find_step ?t 1 = Some \<lparr>s_index = 1, s_text = ''b'', s_completed = False\<rparr>"
    by code_simp
  from mark_step_completed_valid_checklist [OF v, of 0] f0
  have a: "mark_step_completed ?t 0 = ?t" by simp
  from mark_step_completed_valid_checklist [OF v, of 1] f0 f1
  have b: "find_step (mark_step_completed ?t 1) 1
             = Some \<lparr>s_index = 1, s_text = ''b'', s_completed = True\<rparr>"
    and c: "find_step (mark_step_completed ?t 1) 0
             = Some \<lparr>s_index = 0, s_text = ''a'', s_completed = True\<rparr>"
    by simp_all
  from v a b c show ?thesis by simp
qed


subsection \<open>Error classification\<close>


subsection \<open>Duplicates in one detection pass\<close>

text \<open>
  Claim C7 says that no two errors of one detection pass have the same message. Only
  the validation errors of the console are compared with the errors already
  collected. For a page without console whose DOM text is ``Email already
  registered'', two patterns of \<open>already_exists\<close> match and the pass returns the
  same error twice; two console errors with the same text are both kept as well.
\<close>

theorem extract_errors_from_dom_duplicates:
  "extract_errors_from_dom
      (Some \<lparr>dom_text = ''Email already registered'', clickable_elements = None\<rparr>) None
     = [\<lparr>error_type = ''already_exists'', message = ''Email already registered'',
         element_id = None, field_name = None, severity = ''medium'',
         recovery_hint = Some ''Try using a different value or switch to login''\<rparr>,
        \<lparr>error_type = ''already_exists'', message = ''Email already registered'',
         element_id = None, field_name = None, severity = ''medium'',
         recovery_hint = Some ''Try using a different value or switch to login''\<rparr>]
   \<and> \<not> distinct (map message (extract_errors_from_dom
      (Some \<lparr>dom_text = ''Email already registered'', clickable_elements = None\<rparr>) None))
   \<and> map message (extract_errors_from_dom None
        (Some \<lparr>recent_errors = [Some ''Network error'', Some ''Network error''],
               validation_errors = []\<rparr>))
       = [''Network error'', ''Network error'']"
proof -
  have d: "extract_errors_from_dom
      (Some \<lparr>dom_text = ''Email already registered'', clickable_elements = None\<rparr>) None
     = [\<lparr>error_type = ''already_exists'', message = ''Email already registered'',
         element_id = None, field_name = None, severity = ''medium'',
         recovery_hint = Some ''Try using a different value or switch to login''\<rparr>,
        \<lparr>error_type = ''already_exists'', message = ''Email already registered'',
         element_id = None, field_name = None, severity = ''medium'',
         recovery_hint = Some ''Try using a different value or switch to login''\<rparr>]"
    by code_simp
  have c: "map message (extract_errors_from_dom None
        (Some \<lparr>recent_errors = [Some ''Network error'', Some ''Network error''],
               validation_errors = []\<rparr>))
       = [''Network error'', ''Network error'']"
    by code_simp
  show ?thesis unfolding d using c by simp
qed


subsection \<open>New-element delta and interaction pattern\<close>

text \<open>
  Claim C8, as stated, fails when no interactive element was known before the action:
  after a scroll on a page whose previous identifier set is empty and whose current
  set is \<open>{1, 2, 3}\<close>, the delta is empty, not current minus previous, and the pattern
  is \<open>no_new_elements\<close>.
\<close>

theorem new_element_ids_empty_previous:
  "new_element_ids [''scroll''] {||} {|1, 2, 3|} {|1, 2, 3|} \<noteq> {|1, 2, 3|} |-| {||}
   \<and> action_context_pattern [''scroll''] {||} {|1, 2, 3|} {|1, 2, 3|} = Some ''no_new_elements''"
  by (auto simp add: new_element_ids_def action_context_pattern_def likely_pattern_def Let_def
      fcard_fempty)

text \<open>
  Claim C8, amended. With an empty previous identifier set the delta is empty. With a
  non-empty one, after a DOM-changing action the delta is the set the adaptive detector
  returned minus the previous set when that difference is non-empty, and otherwise the
  current set minus the previous set; so it is current minus previous whenever the
  detector's final set is the current set. The pattern recorded for the last action is
  decided by the size of the delta alone: more than 15 is \<open>modal_or_form_opened\<close>,
  more than 5 is \<open>dropdown_or_menu_opened\<close>, more than 0 is
  \<open>suggestions_or_details_appeared\<close>, and 0 is \<open>no_new_elements\<close>.
\<close>

theorem new_element_ids_delta:
  "new_element_ids acts previous final current =
     (if previous = {||} then {||}
      else if has_dom_changing_action acts \<and> final |-| previous \<noteq> {||} then final |-| previous
      else current |-| previous)
   \<and> new_element_ids acts previous current current =
     (if previous = {||} then {||} else current |-| previous)
   \<and> (likely_pattern n = ''modal_or_form_opened'') = (n > 15)
   \<and> (likely_pattern n = ''dropdown_or_menu_opened'') = (n > 5 \<and> n \<le> 15)
   \<and> (likely_pattern n = ''suggestions_or_details_appeared'') = (n > 0 \<and> n \<le> 5)
   \<and> (likely_pattern n = ''no_new_elements'') = (n = 0)
   \<and> action_context_pattern acts previous final current =
       (if acts = [] then None
        else Some (likely_pattern (fcard (new_element_ids acts previous final current))))"
  by (auto simp add: new_element_ids_def action_context_pattern_def likely_pattern_def Let_def)


subsection \<open>Page inference and step validation\<close>

lemma text_hints_subset:
  "set (text_hints s)
     \<subseteq> {''login'', ''submit'', ''email_field'', ''password_field'', ''search''}"
  by (auto simp add: text_hints_def Let_def)

lemma extract_text_elements_subset:
  "set (extract_text_elements selector_map)
     \<subseteq> {''login'', ''submit'', ''email_field'', ''password_field'', ''search''}"
  using text_hints_subset by (fastforce simp add: extract_text_elements_def)

lemma visible_text_elements_subset:
  "set (visible_text_elements (page_context_analyzer bs))
     \<subseteq> {''login'', ''submit'', ''email_field'', ''password_field'', ''search''}"
  using extract_text_elements_subset
  by (auto simp add: page_context_analyzer_def split: option.splits)

lemma signals_never_emitted:
  "''password'' \<notin> set (visible_text_elements (page_context_analyzer bs))"
  "''username'' \<notin> set (visible_text_elements (page_context_analyzer bs))"
  "''address'' \<notin> set (visible_text_elements (page_context_analyzer bs))"
  "''payment'' \<notin> set (visible_text_elements (page_context_analyzer bs))"
  using visible_text_elements_subset [of bs] by auto

lemma step_actions_login_with_credentials:
  "step_actions_of (lower ''login with credentials'') = [''login'']"
  by code_simp

lemma expected_pages_login: "expected_pages_of [''login''] = [''login'', ''auth_page'']"
  by (simp add: expected_pages_of_def action_to_page_patterns_def)

text \<open>
  Claim C9 expects the step ``login with credentials'' to be accepted on a page whose
  signals include \<open>email_field\<close> and \<open>password_field\<close> and whose URL has no page-type
  keyword. The code rejects it, for every browser state whose URL path matches no
  keyword family, whatever its signals: the DOM fallback of \<open>infer_current_page\<close>
  tests the signal \<open>password\<close>, which the extractor never emits (it emits
  \<open>password_field\<close>), so the page is never inferred as \<open>login\<close>; and the element
  check of the validator has no entry for the action \<open>login\<close>.
\<close>

theorem login_step_rejected_without_auth_url:
  assumes "matched_page_type (page_context_analyzer bs) = None"
  shows "validate_against_todo_step (page_context_analyzer bs) ''login with credentials''
     = (False, StepPageMismatch [''login''] [''login'', ''auth_page'']
                 (infer_current_page (page_context_analyzer bs)))
    \<and> infer_current_page (page_context_analyzer bs) \<noteq> ''login''"
  using assms signals_never_emitted [of bs]
  by (simp add: validate_against_todo_step_def step_actions_login_with_credentials
       expected_pages_login Let_def element_availability_def infer_current_page_def)

theorem login_step_rejected_witness:
  "matched_page_type (page_context_analyzer (Some
      \<lparr>bs_url = ''https://example.com/'', bs_url_path = Some ''/'', bs_title = ''Welcome'',
       bs_selector_map = Some [(1, ''{Tag:input, Name:email, Type:email}''),
                               (2, ''{Tag:input, Name:password, Type:password}''),
                               (3, ''{Tag:button, Text:Sign in, Type:submit}'')]\<rparr>)) = None
   \<and> ''email_field'' \<in> set (visible_text_elements (page_context_analyzer (Some
      \<lparr>bs_url = ''https://example.com/'', bs_url_path = Some ''/'', bs_title = ''Welcome'',
       bs_selector_map = Some [(1, ''{Tag:input, Name:email, Type:email}''),
                               (2, ''{Tag:input, Name:password, Type:password}''),
                               (3, ''{Tag:button, Text:Sign in, Type:submit}'')]\<rparr>)))
   \<and> ''password_field'' \<in> set (visible_text_elements (page_context_analyzer (Some
      \<lparr>bs_url = ''https://example.com/'', bs_url_path = Some ''/'', bs_title = ''Welcome'',
       bs_selector_map = Some [(1, ''{Tag:input, Name:email, Type:email}''),
                               (2, ''{Tag:input, Name:password, Type:password}''),
                               (3, ''{Tag:button, Text:Sign in, Type:submit}'')]\<rparr>)))
   \<and> fst (validate_against_todo_step (page_context_analyzer (Some
      \<lparr>bs_url = ''https://example.com/'', bs_url_path = Some ''/'', bs_title = ''Welcome'',
       bs_selector_map = Some [(1, ''{Tag:input, Name:email, Type:email}''),
                               (2, ''{Tag:input, Name:password, Type:password}''),
                               (3, ''{Tag:button, Text:Sign in, Type:submit}'')]\<rparr>))
        ''login with credentials'') = False"
proof -
  let ?bs = "Some
      \<lparr>bs_url = ''https://example.com/'', bs_url_path = Some ''/'', bs_title = ''Welcome'',
       bs_selector_map = Some [(1, ''{Tag:input, Name:email, Type:email}''),
                               (2, ''{Tag:input, Name:password, Type:password}''),
                               (3, ''{Tag:button, Text:Sign in, Type:submit}'')]\<rparr>"
  have m: "matched_page_type (page_context_analyzer ?bs) = None"
    by code_simp
  have e: "''email_field'' \<in> set (visible_text_elements (page_context_analyzer ?bs))"
    by code_simp
  have p: "''password_field'' \<in> set (visible_text_elements (page_context_analyzer ?bs))"
    by code_simp
  from login_step_rejected_without_auth_url [OF m]
  have "fst (validate_against_todo_step (page_context_analyzer ?bs)
          ''login with credentials'') = False"
    by simp
  with m e p show ?thesis by simp
qed

text \<open>
  Claim C10. The element-signal extractor only emits signals among \<open>login\<close>,
  \<open>submit\<close>, \<open>email_field\<close>, \<open>password_field\<close> and \<open>search\<close>; so the address-field and
  payment-field tests never hold, and \<open>infer_current_page\<close> returns \<open>checkout\<close> only
  when the URL path matched the checkout keyword family.
\<close>

theorem infer_checkout_only_via_url:
  "set (visible_text_elements (page_context_analyzer bs))
     \<subseteq> {''login'', ''submit'', ''email_field'', ''password_field'', ''search''}
   \<and> ''address'' \<notin> set (visible_text_elements (page_context_analyzer bs))
   \<and> ''payment'' \<notin> set (visible_text_elements (page_context_analyzer bs))
   \<and> (infer_current_page (page_context_analyzer bs) = ''checkout''
        \<longrightarrow> matched_page_type (page_context_analyzer bs) = Some ''checkout'')"
  using visible_text_elements_subset [of bs] signals_never_emitted [of bs]
  by (simp add: infer_current_page_def Let_def)

theorem infer_checkout_only_via_url_witness:
  "infer_current_page (page_context_analyzer (Some
      \<lparr>bs_url = ''https://shop.example.com/checkout'', bs_url_path = Some ''/checkout'',
       bs_title = ''Checkout'',
       bs_selector_map = Some [(1, ''{Tag:input, Name:email, Type:email}'')]\<rparr>)) = ''checkout''
   \<and> matched_page_type (page_context_analyzer (Some
      \<lparr>bs_url = ''https://shop.example.com/checkout'', bs_url_path = Some ''/checkout'',
       bs_title = ''Checkout'',
       bs_selector_map = Some [(1, ''{Tag:input, Name:email, Type:email}'')]\<rparr>))
       = Some ''checkout''"
proof -
  let ?bs = "Some
      \<lparr>bs_url = ''https://shop.example.com/checkout'', bs_url_path = Some ''/checkout'',
       bs_title = ''Checkout'',
       bs_selector_map = Some [(1, ''{Tag:input, Name:email, Type:email}'')]\<rparr>"
  have i: "infer_current_page (page_context_analyzer ?bs) = ''checkout''"
    by code_simp
  with infer_checkout_only_via_url [of ?bs]
  have "matched_page_type (page_context_analyzer ?bs) = Some ''checkout''"
    by blast
  with i show ?thesis by simp
qed


end
